theory Spec2Isabelle
  imports Main "HOL-Library.AList"
begin

section \<open>Data model (polls/models.py)\<close>

text \<open>
  The Django models of the voting application, as rows of tables. The user-facing
  texts of the application are Russian; they are represented here by constructors
  with English names, one per distinct text.
\<close>

datatype State = NOT_STARTED | STARTED | FINISHED
  \<comment> \<open>\<open>Poll.State\<close>: 'N', 'S', 'F'\<close>

datatype Status = LOCAL | READY | QUEUEING | SENDING | SUCCESS | ERROR
  \<comment> \<open>\<open>SendEmail.Status\<close>\<close>

datatype Response = YES | NO | SPOILED | NOT_RETURNED
  \<comment> \<open>\<open>Key.Response\<close>: 'Y', 'N', 'S', '?'\<close>

text \<open>
  A row of \<open>Poll\<close>. The automatic primary key is the key of the table (below);
  the many-to-many voter sets are lists of voter ids; \<open>private_key_method\<close> is the
  stored one-character string, \<open>Poll.Method.SIX_DIGITS\<close> being \<open>''6''\<close>.
\<close>

record Poll =
  title :: string
  poll_text :: string
  allow_spoiling :: bool
  date :: nat
  voter_local :: "nat list"
  voter_remote :: "nat list"
  secretary :: nat
  private_key_method :: string
  state :: State

definition SIX_DIGITS :: string where
  "SIX_DIGITS = ''6''"

text \<open>
  A row of \<open>SendEmail\<close> (the entitlement record). \<open>public_key\<close> is its primary key
  (a UUID, here a natural number); \<open>info\<close> holds the two entries the dispatcher
  writes, \<open>info['error']\<close> and \<open>info['time']\<close>.
\<close>

record SendEmail =
  info_error :: "string option"
  info_time :: "nat option"
  voter :: nat
  poll :: nat
  public_key :: nat
  visited :: bool
  send_secretary :: nat
  status :: Status

text \<open>
  A row of \<open>Key\<close> without its primary key \<open>value\<close>, which is the key of the table.
  The foreign key \<open>poll\<close> is nullable in the model.
\<close>

record Key =
  key_poll :: "nat option"
  response :: Response

record BadKey =
  bad_poll :: "nat option"
  bad_value :: string
  timestamp :: nat

text \<open>
  The database. \<open>polls\<close> is keyed by the automatic id, \<open>keys\<close> by the key's value
  (the primary key of \<open>Key\<close>, so one row per value over all polls); \<open>send_emails\<close>
  and \<open>bad_keys\<close> are lists of rows in insertion order.
\<close>

record db =
  polls :: "(nat \<times> Poll) list"
  send_emails :: "SendEmail list"
  keys :: "string \<rightharpoonup> Key"
  bad_keys :: "BadKey list"

text \<open>
  Exceptions. The four \<open>ValueError\<close>s are those raised by
  \<open>Poll.create_private_key_for\<close>, told apart by their message; \<open>ValueError\<close> is the
  one raised while parsing a submitted response; \<open>AssertionError\<close> is the failed
  length assertion; \<open>IntegrityError\<close> is Django's, on a violated uniqueness
  constraint; \<open>IndexError\<close> is \<open>secrets.choice\<close> on an empty sequence.
\<close>

datatype exn =
    ValueError_PollFinished
  | ValueError_AlreadyIssued
  | ValueError_ExhaustedKeySpace
  | ValueError_UnknownKeyMethod string
  | ValueError
  | AssertionError_InvalidGeneratorOutput
  | IntegrityError
  | IndexError
  | TransportError

fun is_ValueError :: "exn \<Rightarrow> bool" where
  "is_ValueError ValueError_PollFinished = True"
| "is_ValueError ValueError_AlreadyIssued = True"
| "is_ValueError ValueError_ExhaustedKeySpace = True"
| "is_ValueError (ValueError_UnknownKeyMethod m) = True"
| "is_ValueError ValueError = True"
| "is_ValueError AssertionError_InvalidGeneratorOutput = False"
| "is_ValueError IntegrityError = False"
| "is_ValueError IndexError = False"
| "is_ValueError TransportError = False"

section \<open>Key generator (polls/models.py)\<close>

text \<open>
  The random source of the operating system is a sequence \<open>rnd\<close> of natural numbers
  read at a cursor; every draw advances the cursor by one. \<open>secrets.choice seq\<close>
  returns \<open>seq[randbelow(len(seq))]\<close>: the draw, brought below the length of the
  sequence, is the index; it raises \<open>IndexError\<close> on an empty sequence.
\<close>

definition string_digits :: string where
  "string_digits = ''0123456789''"

definition choice :: "'a list \<Rightarrow> nat \<Rightarrow> exn + 'a" where
  "choice seq r = (if seq = [] then Inl IndexError else Inr (seq ! (r mod length seq)))"

text \<open>
  \<open>secure_digits(k, digits)\<close>: the join of \<open>k\<close> choices, drawn left to right from
  cursor \<open>c\<close> on.
\<close>

fun secure_digits :: "nat \<Rightarrow> string \<Rightarrow> (nat \<Rightarrow> nat) \<Rightarrow> nat \<Rightarrow> exn + string" where
  "secure_digits 0 digits rnd c = Inr []"
| "secure_digits (Suc k) digits rnd c =
     (case choice digits (rnd c) of
        Inl e \<Rightarrow> Inl e
      | Inr ch \<Rightarrow>
          (case secure_digits k digits rnd (Suc c) of
             Inl e \<Rightarrow> Inl e
           | Inr s \<Rightarrow> Inr (ch # s)))"

text \<open>
  \<open>Key.objects.get_or_create(poll=self, value=v)\<close> on the key table, as Django's
  \<open>QuerySet.get_or_create\<close> works: \<open>get(poll=self, value=v)\<close> looks for a row with
  this value and this poll and returns it with \<open>created = False\<close>; when there is none,
  \<open>create(poll=self, value=v)\<close> inserts a row with the default response, inside a
  savepoint, and returns it with \<open>created = True\<close>. The insert violates the primary
  key \<open>value\<close> when a row of another poll (or of no poll) already has the value; the
  savepoint is rolled back, \<open>get\<close> is tried again, finds nothing either, and the
  \<open>IntegrityError\<close> is raised again, the table being as before.
\<close>

definition get_or_create :: "(string \<rightharpoonup> Key) \<Rightarrow> nat \<Rightarrow> string \<Rightarrow> exn + ((string \<rightharpoonup> Key) \<times> bool)" where
  "get_or_create ks pid v =
     (case ks v of
        None \<Rightarrow> Inr (ks(v \<mapsto> \<lparr>key_poll = Some pid, response = NOT_RETURNED\<rparr>), True)
      | Some k \<Rightarrow> if key_poll k = Some pid then Inr (ks, False) else Inl IntegrityError)"

text \<open>
  The loop \<open>for _ in range(1000)\<close> of \<open>create_private_key_for\<close>, with the number of
  iterations left as first argument. The result is the exception raised or the value
  of the created key, with the database and the cursor of the random source.
\<close>

fun mint_loop :: "nat \<Rightarrow> nat \<Rightarrow> (nat \<Rightarrow> nat) \<Rightarrow> nat \<Rightarrow> db \<Rightarrow> (exn + string) \<times> db \<times> nat" where
  "mint_loop 0 pid rnd c d = (Inl ValueError_ExhaustedKeySpace, d, c)"
| "mint_loop (Suc n) pid rnd c d =
     (case secure_digits 6 string_digits rnd c of
        Inl e \<Rightarrow> (Inl e, d, c)
      | Inr private_key_value \<Rightarrow>
          if length private_key_value \<noteq> 6
          then (Inl AssertionError_InvalidGeneratorOutput, d, c + 6)
          else (case get_or_create (keys d) pid private_key_value of
                  Inl e \<Rightarrow> (Inl e, d, c + 6)
                | Inr (ks, created) \<Rightarrow>
                    if created then (Inr private_key_value, d\<lparr>keys := ks\<rparr>, c + 6)
                    else mint_loop n pid rnd (c + 6) (d\<lparr>keys := ks\<rparr>)))"

text \<open>
  \<open>send_email.save(update_fields=["visited"])\<close> after \<open>send_email.visited = True\<close>:
  the row with the primary key of \<open>send_email\<close> gets \<open>visited = True\<close>.
\<close>

definition save_visited :: "SendEmail \<Rightarrow> SendEmail list \<Rightarrow> SendEmail list" where
  "save_visited send_email rows =
     map (\<lambda>r. if public_key r = public_key send_email then r\<lparr>visited := True\<rparr> else r) rows"

text \<open>
  \<open>Poll.create_private_key_for(self, send_email)\<close>, \<open>self\<close> being the poll object
  \<open>p\<close> with id \<open>pid\<close>.
\<close>

definition create_private_key_for ::
  "nat \<Rightarrow> Poll \<Rightarrow> SendEmail \<Rightarrow> (nat \<Rightarrow> nat) \<Rightarrow> nat \<Rightarrow> db \<Rightarrow> (exn + string) \<times> db \<times> nat" where
  "create_private_key_for pid p send_email rnd c d =
     (if state p = FINISHED then (Inl ValueError_PollFinished, d, c)
      else if visited send_email then (Inl ValueError_AlreadyIssued, d, c)
      else if private_key_method p = SIX_DIGITS then
        (case mint_loop 1000 pid rnd c d of
           (Inl e, d', c') \<Rightarrow> (Inl e, d', c')
         | (Inr private_key, d', c') \<Rightarrow>
             (Inr private_key, d'\<lparr>send_emails := save_visited send_email (send_emails d')\<rparr>, c'))
      else (Inl (ValueError_UnknownKeyMethod (private_key_method p)), d, c))"

section \<open>Voter-facing views (polls/views.py)\<close>

text \<open>
  The texts shown to the voter, and the pages rendered. \<open>PollIs s\<close> is the message
  built from the lower-cased label of the poll's state; \<open>ExceptionText e\<close> is
  \<open>str(e)\<close> of a caught exception.
\<close>

datatype Msg =
    NoSuchPoll
  | PollIs State
  | KeyNotRegistered
  | SpoilingNotAllowed
  | ResponseNotRecognized
  | VoteRecorded
  | AlreadyVoted
  | ExceptionText exn

datatype HttpResponse =
    Message Msg  \<comment> \<open>\<open>polls/message.html\<close>\<close>
  | VoteForm string "nat option"  \<comment> \<open>\<open>polls/vote.html\<close> with the key and its poll\<close>
  | Bulletin nat string  \<comment> \<open>\<open>polls/get_bulletin.html\<close> with the poll id and the key\<close>
  | PrintPage nat "string list"  \<comment> \<open>\<open>polls/print.html\<close> with the poll id and the keys\<close>
  | PlainNotStarted  \<comment> \<open>plain response: the poll is not started\<close>
  | PlainError exn  \<comment> \<open>plain response: error, with \<open>str(e)\<close>\<close>
  | Http404
  | ServerError exn  \<comment> \<open>an exception no handler of the view catches\<close>

record HttpRequest =
  request_method :: string
  POST_response :: "string list"  \<comment> \<open>\<open>request.POST.getlist("response")\<close>\<close>

definition get_poll :: "db \<Rightarrow> nat \<Rightarrow> Poll option" where
  "get_poll d poll_id = map_of (polls d) poll_id"

text \<open>\<open>Key.objects.get(value=private_key, poll=poll_id)\<close>; \<open>None\<close> is \<open>Key.DoesNotExist\<close>.\<close>

definition get_key :: "db \<Rightarrow> string \<Rightarrow> nat \<Rightarrow> Key option" where
  "get_key d private_key poll_id =
     (case keys d private_key of
        None \<Rightarrow> None
      | Some k \<Rightarrow> if key_poll k = Some poll_id then Some k else None)"

text \<open>\<open>Key.Response(response)\<close>: the member with that value, or \<open>ValueError\<close>.\<close>

definition Response_of :: "string \<Rightarrow> Response option" where
  "Response_of s =
     (if s = ''Y'' then Some YES
      else if s = ''N'' then Some NO
      else if s = ''S'' then Some SPOILED
      else if s = ''?'' then Some NOT_RETURNED
      else None)"

text \<open>
  The parsing of the submitted list in \<open>vote\<close>: the set of the members the tokens
  denote (here the list of the distinct ones), then the three branches.
\<close>

definition parse_response :: "string list \<Rightarrow> exn + Response" where
  "parse_response response_list =
     (case those (map Response_of response_list) of
        None \<Rightarrow> Inl ValueError
      | Some rs \<Rightarrow>
          (let responses = remdups rs in
           if set responses = {YES, NO} then Inr SPOILED
           else if length responses = 1 then Inr (hd responses)
           else Inl ValueError))"

text \<open>
  \<open>vote(request, poll_id, private_key)\<close>; \<open>now\<close> is the time of the request, the
  default timestamp of a new \<open>BadKey\<close> row.
\<close>

definition vote :: "HttpRequest \<Rightarrow> nat \<Rightarrow> nat \<Rightarrow> string \<Rightarrow> db \<Rightarrow> HttpResponse \<times> db" where
  "vote request now poll_id private_key d =
     (case get_poll d poll_id of
        None \<Rightarrow> (Message NoSuchPoll, d)
      | Some p \<Rightarrow>
          if state p \<noteq> STARTED then (Message (PollIs (state p)), d)
          else
            (case get_key d private_key poll_id of
               None \<Rightarrow>
                 (Message KeyNotRegistered,
                  d\<lparr>bad_keys := bad_keys d @
                     [\<lparr>bad_poll = Some poll_id, bad_value = private_key, timestamp = now\<rparr>]\<rparr>)
             | Some key \<Rightarrow>
                 (let form_or_voted =
                    (if response key = NOT_RETURNED then (VoteForm private_key (key_poll key), d)
                     else (Message AlreadyVoted, d))
                  in
                  if request_method request = ''POST'' then
                    (case parse_response (POST_response request) of
                       Inl e \<Rightarrow> (Message ResponseNotRecognized, d)
                     | Inr r \<Rightarrow>
                         if \<not> allow_spoiling p \<and> r = SPOILED
                         then (Message SpoilingNotAllowed, d)
                         else if response key = NOT_RETURNED
                         then (Message VoteRecorded,
                               d\<lparr>keys := (keys d)(private_key \<mapsto> key\<lparr>response := r\<rparr>)\<rparr>)
                         else form_or_voted)
                  else form_or_voted)))"

text \<open>
  \<open>get_bulletin_common\<close>, the poll object \<open>p\<close> with id \<open>pid\<close> being
  \<open>send_email.poll\<close>. Only \<open>ValueError\<close> is caught; any other exception leaves the
  atomic block, which rolls the database back.
\<close>

definition get_bulletin_common ::
  "SendEmail \<Rightarrow> nat \<Rightarrow> Poll \<Rightarrow> (nat \<Rightarrow> nat) \<Rightarrow> nat \<Rightarrow> db \<Rightarrow> HttpResponse \<times> db \<times> nat" where
  "get_bulletin_common send_email pid p rnd c d =
     (case create_private_key_for pid p send_email rnd c d of
        (Inl e, d', c') \<Rightarrow>
          if is_ValueError e then (Message (ExceptionText e), d', c')
          else (ServerError e, d, c')
      | (Inr private_key, d', c') \<Rightarrow> (Bulletin pid private_key, d', c'))"

text \<open>
  \<open>email_bulletin(request, public_key)\<close>: the entitlement record with this public
  key, joined with its poll (\<open>select_related\<close>), or 404.
\<close>

definition email_bulletin :: "nat \<Rightarrow> (nat \<Rightarrow> nat) \<Rightarrow> nat \<Rightarrow> db \<Rightarrow> HttpResponse \<times> db \<times> nat" where
  "email_bulletin pk rnd c d =
     (case find (\<lambda>r. public_key r = pk) (send_emails d) of
        None \<Rightarrow> (Http404, d, c)
      | Some send_email \<Rightarrow>
          (case get_poll d (poll send_email) of
             None \<Rightarrow> (Http404, d, c)
           | Some p \<Rightarrow> get_bulletin_common send_email (poll send_email) p rnd c d))"

section \<open>Administrative surface (polls/admin.py)\<close>

text \<open>
  \<open>random.shuffle(x)\<close> of a \<open>SystemRandom\<close>: for \<open>i\<close> from \<open>len(x) - 1\<close> down to
  \<open>1\<close>, swap \<open>x[i]\<close> with \<open>x[j]\<close>, \<open>j = randbelow(i + 1)\<close>. The first argument of
  \<open>shuffle_from\<close> is the current \<open>i\<close>.
\<close>

fun shuffle_from :: "nat \<Rightarrow> 'a list \<Rightarrow> (nat \<Rightarrow> nat) \<Rightarrow> nat \<Rightarrow> 'a list \<times> nat" where
  "shuffle_from 0 x rnd c = (x, c)"
| "shuffle_from (Suc i) x rnd c =
     (let j = rnd c mod (Suc i + 1)
      in shuffle_from i (x[Suc i := x ! j, j := x ! Suc i]) rnd (Suc c))"

definition shuffle :: "'a list \<Rightarrow> (nat \<Rightarrow> nat) \<Rightarrow> nat \<Rightarrow> 'a list \<times> nat" where
  "shuffle x rnd c = shuffle_from (length x - 1) x rnd c"

text \<open>
  The loop of \<open>print_bulletins\<close> over the selected entitlement records: the keys
  minted so far are returned in order; the first exception ends the loop.
\<close>

fun print_loop ::
  "nat \<Rightarrow> Poll \<Rightarrow> SendEmail list \<Rightarrow> (nat \<Rightarrow> nat) \<Rightarrow> nat \<Rightarrow> db \<Rightarrow> (exn + string list) \<times> db \<times> nat" where
  "print_loop pid p [] rnd c d = (Inr [], d, c)"
| "print_loop pid p (send_email # rest) rnd c d =
     (case create_private_key_for pid p send_email rnd c d of
        (Inl e, d', c') \<Rightarrow> (Inl e, d', c')
      | (Inr private_key, d', c') \<Rightarrow>
          (case print_loop pid p rest rnd c' d' of
             (Inl e, d'', c'') \<Rightarrow> (Inl e, d'', c'')
           | (Inr private_keys, d'', c'') \<Rightarrow> (Inr (private_key # private_keys), d'', c'')))"

text \<open>
  \<open>PollsAdminSite.print_bulletins(request, poll_id)\<close>, \<open>user\<close> being
  \<open>request.user\<close>. The handler \<open>except Exception\<close> returns the error page from inside
  the atomic block, which therefore commits what the loop has written.
\<close>

definition print_bulletins ::
  "nat \<Rightarrow> nat \<Rightarrow> (nat \<Rightarrow> nat) \<Rightarrow> nat \<Rightarrow> db \<Rightarrow> HttpResponse \<times> db \<times> nat" where
  "print_bulletins user poll_id rnd c d =
     (case get_poll d poll_id of
        None \<Rightarrow> (Http404, d, c)
      | Some p \<Rightarrow>
          if secretary p \<noteq> user then (Http404, d, c)
          else if state p \<noteq> STARTED then (PlainNotStarted, d, c)
          else
            (case print_loop poll_id p
                    (filter (\<lambda>r. \<not> visited r \<and> poll r = poll_id \<and> status r = LOCAL
                                 \<and> send_secretary r = user) (send_emails d)) rnd c d of
               (Inl e, d', c') \<Rightarrow> (PlainError e, d', c')
             | (Inr private_keys, d', c') \<Rightarrow>
                 (case shuffle private_keys rnd c' of
                    (shuffled, c'') \<Rightarrow> (PrintPage poll_id shuffled, d', c''))))"

text \<open>
  \<open>SendEmail.objects.get_or_create(voter, poll, secretary, defaults={'status': st})\<close>:
  an existing row for the triple is kept; otherwise a row with a fresh random public
  key is inserted, and a public key already in the table is an \<open>IntegrityError\<close>.
\<close>

definition seed :: "nat \<Rightarrow> nat \<Rightarrow> nat \<Rightarrow> Status \<Rightarrow> (nat \<Rightarrow> nat) \<Rightarrow> nat \<Rightarrow> SendEmail list
    \<Rightarrow> (exn + SendEmail list) \<times> nat" where
  "seed v pid user st rnd c rows =
     (case find (\<lambda>r. voter r = v \<and> poll r = pid \<and> send_secretary r = user) rows of
        Some r \<Rightarrow> (Inr rows, c)
      | None \<Rightarrow>
          if rnd c \<in> set (map public_key rows) then (Inl IntegrityError, Suc c)
          else (Inr (rows @ [\<lparr>info_error = None, info_time = None, voter = v, poll = pid,
                               public_key = rnd c, visited = False, send_secretary = user,
                               status = st\<rparr>]), Suc c))"

fun seed_all :: "nat list \<Rightarrow> nat \<Rightarrow> nat \<Rightarrow> Status \<Rightarrow> (nat \<Rightarrow> nat) \<Rightarrow> nat \<Rightarrow> SendEmail list
    \<Rightarrow> (exn + SendEmail list) \<times> nat" where
  "seed_all [] pid user st rnd c rows = (Inr rows, c)"
| "seed_all (v # vs) pid user st rnd c rows =
     (case seed v pid user st rnd c rows of
        (Inl e, c') \<Rightarrow> (Inl e, c')
      | (Inr rows', c') \<Rightarrow> seed_all vs pid user st rnd c' rows')"

text \<open>\<open>item.save()\<close> of an entitlement record: its row takes the fields of \<open>item\<close>.\<close>

definition save_send_email :: "SendEmail \<Rightarrow> SendEmail list \<Rightarrow> SendEmail list" where
  "save_send_email item rows = map (\<lambda>r. if public_key r = public_key item then item else r) rows"

text \<open>
  The mail transport: \<open>mail now item\<close> is \<open>None\<close> when the message of \<open>item\<close> is sent
  and \<open>Some (repr e)\<close> when sending raises \<open>e\<close>. The loop of \<open>start_sending_thread\<close>:
\<close>

fun send_items ::
  "SendEmail list \<Rightarrow> (nat \<Rightarrow> SendEmail \<Rightarrow> string option) \<Rightarrow> nat \<Rightarrow> SendEmail list \<Rightarrow> SendEmail list" where
  "send_items [] mail now rows = rows"
| "send_items (item # items) mail now rows =
     (let sending = item\<lparr>status := SENDING\<rparr>;
          rows1 = save_send_email sending rows;
          sent = (case mail now sending of
                    Some err \<Rightarrow> sending\<lparr>status := ERROR, info_error := Some err\<rparr>
                  | None \<Rightarrow> sending\<lparr>status := SUCCESS\<rparr>)
      in send_items items mail now (save_send_email (sent\<lparr>info_time := Some now\<rparr>) rows1))"

text \<open>
  \<open>Poll.start_sending_thread(self)\<close>; \<open>mail_open\<close> tells whether the connection to
  the mail transport opens.
\<close>

definition start_sending_thread ::
  "nat \<Rightarrow> bool \<Rightarrow> (nat \<Rightarrow> SendEmail \<Rightarrow> string option) \<Rightarrow> nat \<Rightarrow> db \<Rightarrow> exn + db" where
  "start_sending_thread pid mail_open mail now d =
     (if \<not> mail_open then Inl TransportError
      else
        (let pks = map public_key
               (filter (\<lambda>r. poll r = pid \<and> status r \<in> {READY, ERROR, QUEUEING, SENDING})
                  (send_emails d))
         in if pks = [] then Inr d
            else
              (let rows1 = map (\<lambda>r. if public_key r \<in> set pks then r\<lparr>status := QUEUEING\<rparr> else r)
                             (send_emails d)
               in Inr (d\<lparr>send_emails :=
                          send_items (filter (\<lambda>r. public_key r \<in> set pks) rows1) mail now rows1\<rparr>))))"

text \<open>
  The acting user of an administrative request. The three poll actions need the
  \<open>secretary\<close> permission, which a superuser does not have, and act on the selected
  polls of the acting secretary.
\<close>

record User =
  user_id :: nat
  is_superuser :: bool

text \<open>
  The queryset of an action: the selected polls that exist and belong to the acting
  secretary, each once. \<open>sel\<close> lists the selected ids in the order in which the database
  returns their rows.
\<close>

definition queryset :: "User \<Rightarrow> nat list \<Rightarrow> db \<Rightarrow> (nat \<times> Poll) list" where
  "queryset user sel d =
     List.map_filter
       (\<lambda>i. case get_poll d i of
               None \<Rightarrow> None
             | Some p \<Rightarrow> if secretary p = user_id user then Some (i, p) else None)
       (remdups sel)"

text \<open>
  The loop of \<open>PollAdmin.start_poll\<close> over the polls of the queryset that are not
  finished. An exception inside the atomic block rolls the block back and ends the
  action, as does one of \<open>start_sending_thread\<close> after the block has committed.
\<close>

fun start_loop ::
  "(nat \<times> Poll) list \<Rightarrow> nat \<Rightarrow> bool \<Rightarrow> (nat \<Rightarrow> SendEmail \<Rightarrow> string option) \<Rightarrow> nat \<Rightarrow> (nat \<Rightarrow> nat)
   \<Rightarrow> nat \<Rightarrow> db \<Rightarrow> exn option \<times> db \<times> nat" where
  "start_loop [] user mail_open mail now rnd c d = (None, d, c)"
| "start_loop ((pid, p) # rest) user mail_open mail now rnd c d =
     (case seed_all (voter_remote p) pid user READY rnd c (send_emails d) of
        (Inl e, c1) \<Rightarrow> (Some e, d, c1)
      | (Inr rows1, c1) \<Rightarrow>
          (case seed_all (voter_local p) pid user LOCAL rnd c1 rows1 of
             (Inl e, c2) \<Rightarrow> (Some e, d, c2)
           | (Inr rows2, c2) \<Rightarrow>
               (let d1 = d\<lparr>polls := AList.update pid (p\<lparr>state := STARTED\<rparr>) (polls d),
                           send_emails := rows2\<rparr>
                in case start_sending_thread pid mail_open mail now d1 of
                     Inl e \<Rightarrow> (Some e, d1, c2)
                   | Inr d2 \<Rightarrow> start_loop rest user mail_open mail now rnd c2 d2)))"

definition start_poll ::
  "User \<Rightarrow> nat list \<Rightarrow> bool \<Rightarrow> (nat \<Rightarrow> SendEmail \<Rightarrow> string option) \<Rightarrow> nat \<Rightarrow> (nat \<Rightarrow> nat)
   \<Rightarrow> nat \<Rightarrow> db \<Rightarrow> exn option \<times> db \<times> nat" where
  "start_poll user sel mail_open mail now rnd c d =
     (if is_superuser user then (None, d, c)
      else start_loop (filter (\<lambda>(i, p). state p \<noteq> FINISHED) (queryset user sel d))
             (user_id user) mail_open mail now rnd c d)"

text \<open>\<open>PollAdmin.end_poll\<close>: one update of the started polls of the queryset.\<close>

definition end_poll :: "User \<Rightarrow> nat list \<Rightarrow> db \<Rightarrow> db" where
  "end_poll user sel d =
     (if is_superuser user then d
      else d\<lparr>polls :=
             map (\<lambda>(i, p). if i \<in> set sel \<and> secretary p = user_id user \<and> state p = STARTED
                           then (i, p\<lparr>state := FINISHED\<rparr>) else (i, p))
               (polls d)\<rparr>)"

text \<open>
  \<open>PollAdmin.duplicate_poll\<close>: every poll of the queryset is saved again without
  primary key and with state \<open>NOT_STARTED\<close>, which inserts a row under a new id, with
  the voter sets of the original.
\<close>

definition new_id :: "(nat \<times> Poll) list \<Rightarrow> nat" where
  "new_id rows = Suc (foldr max (map fst rows) 0)"

fun duplicate_loop :: "(nat \<times> Poll) list \<Rightarrow> (nat \<times> Poll) list \<Rightarrow> (nat \<times> Poll) list" where
  "duplicate_loop [] rows = rows"
| "duplicate_loop ((i, p) # rest) rows =
     duplicate_loop rest (rows @ [(new_id rows, p\<lparr>state := NOT_STARTED\<rparr>)])"

definition duplicate_poll :: "User \<Rightarrow> nat list \<Rightarrow> db \<Rightarrow> db" where
  "duplicate_poll user sel d =
     (if is_superuser user then d
      else d\<lparr>polls := duplicate_loop (queryset user sel d) (polls d)\<rparr>)"

section \<open>Sequences of requests\<close>

text \<open>
  The requests that reach the application, one constructor per view or action, and
  the state they leave: the database and the cursor of the random source. \<open>run\<close>
  serves a list of requests one after the other.
\<close>

datatype event =
    Vote HttpRequest nat nat string
  | EmailBulletin nat
  | PrintBulletins nat nat
  | StartPoll User "nat list" bool nat
  | EndPoll User "nat list"
  | DuplicatePoll User "nat list"

fun step :: "(nat \<Rightarrow> nat) \<Rightarrow> (nat \<Rightarrow> SendEmail \<Rightarrow> string option) \<Rightarrow> event \<Rightarrow> db \<times> nat \<Rightarrow> db \<times> nat" where
  "step rnd mail (Vote request now poll_id private_key) (d, c) =
     (snd (vote request now poll_id private_key d), c)"
| "step rnd mail (EmailBulletin pk) (d, c) = snd (email_bulletin pk rnd c d)"
| "step rnd mail (PrintBulletins user poll_id) (d, c) = snd (print_bulletins user poll_id rnd c d)"
| "step rnd mail (StartPoll user sel mail_open now) (d, c) =
     snd (start_poll user sel mail_open mail now rnd c d)"
| "step rnd mail (EndPoll user sel) (d, c) = (end_poll user sel d, c)"
| "step rnd mail (DuplicatePoll user sel) (d, c) = (duplicate_poll user sel d, c)"

definition run :: "(nat \<Rightarrow> nat) \<Rightarrow> (nat \<Rightarrow> SendEmail \<Rightarrow> string option) \<Rightarrow> event list \<Rightarrow> db \<times> nat \<Rightarrow> db \<times> nat" where
  "run rnd mail evs s = fold (step rnd mail) evs s"

text \<open>
  The same redemption request repeated: the requests (each with its time) are served
  one after the other for the same poll and key value. \<open>bad_key_rows\<close> are the
  \<open>BadKey\<close> rows of a poll and value, which the results view counts.
\<close>

fun vote_repeatedly :: "(HttpRequest \<times> nat) list \<Rightarrow> nat \<Rightarrow> string \<Rightarrow> db \<Rightarrow> HttpResponse list \<times> db" where
  "vote_repeatedly [] poll_id private_key d = ([], d)"
| "vote_repeatedly ((request, now) # rest) poll_id private_key d =
     (case vote request now poll_id private_key d of
        (resp, d') \<Rightarrow>
          (case vote_repeatedly rest poll_id private_key d' of
             (resps, d'') \<Rightarrow> (resp # resps, d'')))"

definition bad_key_rows :: "db \<Rightarrow> nat \<Rightarrow> string \<Rightarrow> BadKey list" where
  "bad_key_rows d poll_id v =
     filter (\<lambda>b. bad_poll b = Some poll_id \<and> bad_value b = v) (bad_keys d)"

text \<open>The order of the lifecycle, and one move along it.\<close>

fun state_rank :: "State \<Rightarrow> nat" where
  "state_rank NOT_STARTED = 0"
| "state_rank STARTED = 1"
| "state_rank FINISHED = 2"

definition lifecycle_move :: "State \<Rightarrow> State \<Rightarrow> bool" where
  "lifecycle_move s s' =
     (s' = s \<or> (s = NOT_STARTED \<and> s' = STARTED) \<or> (s = STARTED \<and> s' = FINISHED))"

section \<open>Example data\<close>

text \<open>
  A small database used to evaluate the functions above at concrete inputs: poll 4 is
  started, poll 5 finished, poll 6 not started, all of secretary 2. Poll 4 has two
  unissued local entitlement records (public keys 40 and 41), an unissued remote one
  (42) and an issued one (43); poll 5 has an issued record (50) and an unissued one
  (51). One key is registered for poll 4 and one for poll 5.
\<close>

definition example_poll :: Poll where
  "example_poll = \<lparr>title = ''A'', poll_text = ''T'', allow_spoiling = True, date = 0,
     voter_local = [11, 12], voter_remote = [13], secretary = 2,
     private_key_method = ''6'', state = STARTED\<rparr>"

definition example_record :: "nat \<Rightarrow> nat \<Rightarrow> nat \<Rightarrow> bool \<Rightarrow> Status \<Rightarrow> SendEmail" where
  "example_record pk v pid vis st =
     \<lparr>info_error = None, info_time = None, voter = v, poll = pid, public_key = pk,
      visited = vis, send_secretary = 2, status = st\<rparr>"

definition example_db :: db where
  "example_db =
     \<lparr>polls = [(4, example_poll), (5, example_poll\<lparr>state := FINISHED\<rparr>),
               (6, example_poll\<lparr>state := NOT_STARTED\<rparr>)],
      send_emails =
        [example_record 40 11 4 False LOCAL, example_record 41 12 4 False LOCAL,
         example_record 42 13 4 False READY, example_record 43 14 4 True SUCCESS,
         example_record 50 13 5 True SUCCESS, example_record 51 14 5 False SUCCESS],
      keys = [''444444'' \<mapsto> \<lparr>key_poll = Some 4, response = NOT_RETURNED\<rparr>,
              ''555555'' \<mapsto> \<lparr>key_poll = Some 5, response = NOT_RETURNED\<rparr>],
      bad_keys = []\<rparr>"

text \<open>The example database after a key \<open>000000\<close> has been minted for record 40.\<close>

definition example_minted_db :: db where
  "example_minted_db =
     example_db\<lparr>keys := (keys example_db)
                   (''000000'' \<mapsto> \<lparr>key_poll = Some 4, response = NOT_RETURNED\<rparr>),
                send_emails := save_visited (example_record 40 11 4 False LOCAL)
                   (send_emails example_db)\<rparr>"

text \<open>The acting secretary of the examples, and a list of administrative requests.\<close>

definition example_secretary :: User where
  "example_secretary = \<lparr>user_id = 2, is_superuser = False\<rparr>"

definition example_actions :: "event list" where
  "example_actions =
     [StartPoll example_secretary [6] True 7, EndPoll example_secretary [6],
      DuplicatePoll example_secretary [6], StartPoll example_secretary [6, 7] True 8]"

text \<open>The example database after the key \<open>444444\<close> has been redeemed with \<open>YES\<close>.\<close>

definition example_voted_db :: db where
  "example_voted_db =
     example_db\<lparr>keys := (keys example_db)
                   (''444444'' \<mapsto> \<lparr>key_poll = Some 4, response = YES\<rparr>)\<rparr>"

text \<open>A POST request that submits the response list \<open>rl\<close>, and a GET request.\<close>

definition post :: "string list \<Rightarrow> HttpRequest" where
  "post rl = \<lparr>request_method = ''POST'', POST_response = rl\<rparr>"

definition get_request :: HttpRequest where
  "get_request = \<lparr>request_method = ''GET'', POST_response = []\<rparr>"

section \<open>The generator's output\<close>

lemma secure_digits_ok:
  "digits \<noteq> [] \<Longrightarrow>
   \<exists>s. secure_digits k digits rnd c = Inr s \<and> length s = k \<and> set s \<subseteq> set digits"
proof (induction k arbitrary: c)
  case 0
  then show ?case by simp
next
  case (Suc k)
  from Suc.IH [OF Suc.prems, of "Suc c"] obtain s where
    s: "secure_digits k digits rnd (Suc c) = Inr s" "length s = k" "set s \<subseteq> set digits"
    by blast
  from Suc.prems have "digits ! (rnd c mod length digits) \<in> set digits"
    by simp
  with s Suc.prems show ?case
    by (simp add: choice_def)
qed

lemma mint_loop_no_assertion:
  "fst (mint_loop n pid rnd c d) \<noteq> Inl AssertionError_InvalidGeneratorOutput"
proof (induction n arbitrary: c d)
  case 0
  then show ?case by simp
next
  case (Suc n)
  obtain s where s: "secure_digits 6 string_digits rnd c = Inr s" "length s = 6"
    using secure_digits_ok [of string_digits 6 rnd c] by (auto simp: string_digits_def)
  show ?case
    using s Suc.IH
    by (auto simp: get_or_create_def split: option.splits)
qed

text \<open>
  C8. For every state of the random source, \<open>secure_digits\<close> with \<open>k = 6\<close> and the
  default alphabet returns a string of exactly six characters, each a decimal digit;
  so in \<open>create_private_key_for\<close> the length assertion never fails: the call never
  ends in the \<open>AssertionError\<close> of a wrong number of digits, whatever the poll, the
  entitlement record, the database and the random source are.
\<close>

theorem secure_digits_six_digits:
  "(\<exists>s. secure_digits 6 string_digits rnd c = Inr s \<and> length s = 6
        \<and> set s \<subseteq> set ''0123456789'')
   \<and> fst (create_private_key_for pid p send_email rnd c d)
       \<noteq> Inl AssertionError_InvalidGeneratorOutput"
proof
  show "\<exists>s. secure_digits 6 string_digits rnd c = Inr s \<and> length s = 6
        \<and> set s \<subseteq> set ''0123456789''"
    using secure_digits_ok [of string_digits 6 rnd c] by (simp add: string_digits_def)
next
  have "fst (mint_loop 1000 pid rnd c d) \<noteq> Inl AssertionError_InvalidGeneratorOutput"
    by (rule mint_loop_no_assertion)
  then show "fst (create_private_key_for pid p send_email rnd c d)
       \<noteq> Inl AssertionError_InvalidGeneratorOutput"
    by (auto simp: create_private_key_for_def split: prod.splits sum.splits)
qed

section \<open>Parsing the submitted response\<close>

lemma Response_of_simps [simp]:
  "Response_of ''Y'' = Some YES" "Response_of ''N'' = Some NO"
  "Response_of ''S'' = Some SPOILED" "Response_of ''?'' = Some NOT_RETURNED"
  by (simp_all add: Response_of_def)

lemma Response_of_None: "t \<notin> {''Y'', ''N'', ''S'', ''?''} \<Longrightarrow> Response_of t = None"
  by (simp add: Response_of_def)

lemma Response_of_Some:
  "Response_of t = Some r \<Longrightarrow>
   (t = ''Y'' \<and> r = YES) \<or> (t = ''N'' \<and> r = NO) \<or> (t = ''S'' \<and> r = SPOILED)
   \<or> (t = ''?'' \<and> r = NOT_RETURNED)"
  unfolding Response_of_def by (simp split: if_splits)

lemma Response_of_inj: "Response_of t = Some r \<Longrightarrow> Response_of u = Some r \<Longrightarrow> t = u"
  by (drule Response_of_Some, drule Response_of_Some) auto

lemma those_map_None: "those (map f xs) = None \<longleftrightarrow> (\<exists>x\<in>set xs. f x = None)"
  by (induction xs) (auto split: option.splits)

lemma those_map_Some: "those (map f xs) = Some ys \<Longrightarrow> ys = map (the \<circ> f) xs"
  by (induction xs arbitrary: ys) (auto split: option.splits)

lemma parse_response_invalid:
  "\<exists>t\<in>set rl. Response_of t = None \<Longrightarrow> parse_response rl = Inl ValueError"
  using those_map_None [of Response_of rl] by (simp add: parse_response_def)

lemma parse_response_valid:
  assumes "\<forall>t\<in>set rl. Response_of t \<noteq> None"
  shows "parse_response rl =
    (if (the \<circ> Response_of) ` set rl = {YES, NO} then Inr SPOILED
     else if card ((the \<circ> Response_of) ` set rl) = 1
     then Inr (hd (remdups (map (the \<circ> Response_of) rl)))
     else Inl ValueError)"
proof -
  from assms have "those (map Response_of rl) \<noteq> None"
    using those_map_None [of Response_of rl] by blast
  then obtain rs where rs: "those (map Response_of rl) = Some rs" by blast
  then have rs_eq: "rs = map (the \<circ> Response_of) rl" by (rule those_map_Some)
  have len: "length (remdups rs) = card (set rs)" by (simp add: length_remdups_card_conv)
  show ?thesis
    using rs len by (simp add: parse_response_def Let_def rs_eq)
qed

lemma parse_response_single:
  assumes "set rl = {t}" "Response_of t = Some r"
  shows "parse_response rl = (Inr r)"
proof -
  have v: "\<forall>t\<in>set rl. Response_of t \<noteq> None" using assms by simp
  have img: "(the \<circ> Response_of) ` set rl = {r}" using assms by simp
  have "set (remdups (map (the \<circ> Response_of) rl)) = {r}" using img by simp
  then have "hd (remdups (map (the \<circ> Response_of) rl)) = r"
    by (cases "remdups (map (the \<circ> Response_of) rl)") auto
  moreover have "{r} \<noteq> {YES, NO}" by auto
  ultimately show ?thesis
    using parse_response_valid [OF v] img by simp
qed

lemma parse_response_yes_no:
  assumes "set rl = {''Y'', ''N''}"
  shows "parse_response rl = Inr SPOILED"
proof -
  have v: "\<forall>t\<in>set rl. Response_of t \<noteq> None" using assms by auto
  have img: "(the \<circ> Response_of) ` set rl = {YES, NO}" using assms by simp
  show ?thesis using parse_response_valid [OF v] img by simp
qed

lemma parse_response_empty: "parse_response [] = Inl ValueError"
  by (simp add: parse_response_def)

lemma parse_response_many:
  assumes "2 \<le> card (set rl)" "set rl \<noteq> {''Y'', ''N''}"
  shows "parse_response rl = Inl ValueError"
proof (cases "\<exists>t\<in>set rl. Response_of t = None")
  case True
  then show ?thesis by (rule parse_response_invalid)
next
  case False
  then have v: "\<forall>t\<in>set rl. Response_of t \<noteq> None" by simp
  have inj: "inj_on (the \<circ> Response_of) (set rl)"
  proof (rule inj_onI)
    fix t u assume "t \<in> set rl" "u \<in> set rl" "(the \<circ> Response_of) t = (the \<circ> Response_of) u"
    with v obtain r where "Response_of t = Some r" "Response_of u = Some r"
      by (metis comp_apply option.collapse)
    then show "t = u" by (rule Response_of_inj)
  qed
  then have c: "card ((the \<circ> Response_of) ` set rl) = card (set rl)" by (rule card_image)
  have ne: "(the \<circ> Response_of) ` set rl \<noteq> {YES, NO}"
  proof
    assume eq: "(the \<circ> Response_of) ` set rl = {YES, NO}"
    have "set rl = {''Y'', ''N''}"
    proof (rule set_eqI)
      fix t
      show "t \<in> set rl \<longleftrightarrow> t \<in> {''Y'', ''N''}"
      proof
        assume t: "t \<in> set rl"
        then have "(the \<circ> Response_of) t \<in> {YES, NO}" using eq by blast
        moreover from t v obtain r where "Response_of t = Some r" by auto
        ultimately show "t \<in> {''Y'', ''N''}"
          by (auto dest: Response_of_Some)
      next
        assume t: "t \<in> {''Y'', ''N''}"
        then have "(the \<circ> Response_of) t \<in> (the \<circ> Response_of) ` set rl" using eq by auto
        then obtain u where u: "u \<in> set rl" "(the \<circ> Response_of) u = (the \<circ> Response_of) t" by auto
        from u(1) v obtain r where r: "Response_of u = Some r" by auto
        from t have "Response_of t \<noteq> None" by auto
        then obtain r' where r': "Response_of t = Some r'" by auto
        from u(2) r r' have "r = r'" by simp
        with r r' have "u = t" by (auto intro: Response_of_inj)
        with u(1) show "t \<in> set rl" by simp
      qed
    qed
    with assms(2) show False by simp
  qed
  show ?thesis using parse_response_valid [OF v] ne c assms(1) by simp
qed

section \<open>The redemption view\<close>

lemma example_get_poll:
  "get_poll example_db 4 = Some example_poll"
  "get_poll example_db 5 = Some (example_poll\<lparr>state := FINISHED\<rparr>)"
  "get_poll example_db 6 = Some (example_poll\<lparr>state := NOT_STARTED\<rparr>)"
  by (simp_all add: get_poll_def example_db_def)

lemma example_get_key:
  "get_key example_db ''444444'' 4 = Some \<lparr>key_poll = Some 4, response = NOT_RETURNED\<rparr>"
  "get_key example_db ''123456'' 4 = None"
  "get_key example_db ''555555'' 4 = None"
  "get_key example_db ''123456'' 5 = None"
  by (simp_all add: get_key_def example_db_def)

lemma vote_registered_post:
  assumes "get_poll d poll_id = Some p" "state p = STARTED"
    and "get_key d private_key poll_id = Some key" "response key = NOT_RETURNED"
    and "request_method request = ''POST''"
  shows "vote request now poll_id private_key d =
    (case parse_response (POST_response request) of
       Inl e \<Rightarrow> (Message ResponseNotRecognized, d)
     | Inr r \<Rightarrow>
         if \<not> allow_spoiling p \<and> r = SPOILED then (Message SpoilingNotAllowed, d)
         else (Message VoteRecorded, d\<lparr>keys := (keys d)(private_key \<mapsto> key\<lparr>response := r\<rparr>)\<rparr>))"
  using assms by (simp add: vote_def Let_def split: sum.splits)

text \<open>
  C9. When the poll exists and its state is not \<open>STARTED\<close>, \<open>vote\<close> returns the
  message that names the state and the database it was given: no \<open>BadKey\<close> row is
  added, even for an unregistered key value, and no response is written, whatever the
  request method and the submitted responses are.
\<close>

theorem vote_outside_started_no_mutation:
  "get_poll d poll_id = Some p \<Longrightarrow> state p \<noteq> STARTED \<Longrightarrow>
   vote request now poll_id private_key d = (Message (PollIs (state p)), d)"
  by (simp add: vote_def)

theorem vote_outside_started_no_mutation_witness:
  "get_key example_db ''123456'' 5 = None
   \<and> vote (post [''Y'']) 7 5 ''123456'' example_db = (Message (PollIs FINISHED), example_db)
   \<and> vote get_request 7 6 ''444444'' example_db = (Message (PollIs NOT_STARTED), example_db)"
  using vote_outside_started_no_mutation [of example_db 5 "example_poll\<lparr>state := FINISHED\<rparr>"
      "post [''Y'']" 7 "''123456''"]
    vote_outside_started_no_mutation [of example_db 6 "example_poll\<lparr>state := NOT_STARTED\<rparr>"
      get_request 7 "''444444''"]
  by (simp add: example_get_poll example_get_key)

lemma vote_unregistered:
  assumes "get_poll d poll_id = Some p" "state p = STARTED" "get_key d private_key poll_id = None"
  shows "vote request now poll_id private_key d =
    (Message KeyNotRegistered,
     d\<lparr>bad_keys := bad_keys d @
        [\<lparr>bad_poll = Some poll_id, bad_value = private_key, timestamp = now\<rparr>]\<rparr>)"
  using assms by (simp add: vote_def)

lemma vote_repeatedly_unregistered:
  assumes "get_poll d poll_id = Some p" "state p = STARTED" "get_key d private_key poll_id = None"
  shows "vote_repeatedly reqs poll_id private_key d =
    (replicate (length reqs) (Message KeyNotRegistered),
     d\<lparr>bad_keys := bad_keys d @
        map (\<lambda>(request, now). \<lparr>bad_poll = Some poll_id, bad_value = private_key, timestamp = now\<rparr>) reqs\<rparr>)"
  using assms
proof (induction reqs arbitrary: d)
  case Nil
  then show ?case by simp
next
  case (Cons a reqs)
  obtain request now where a: "a = (request, now)" by (cases a)
  let ?d' = "d\<lparr>bad_keys := bad_keys d @
        [\<lparr>bad_poll = Some poll_id, bad_value = private_key, timestamp = now\<rparr>]\<rparr>"
  have v: "vote request now poll_id private_key d = (Message KeyNotRegistered, ?d')"
    using Cons.prems by (rule vote_unregistered)
  have "get_poll ?d' poll_id = Some p" "get_key ?d' private_key poll_id = None"
    using Cons.prems by (simp_all add: get_poll_def get_key_def)
  from Cons.IH [OF this(1) Cons.prems(2) this(2)] v a
  show ?case by simp
qed

text \<open>
  C7. A redemption request for a started poll with a key value that is not registered
  for that poll returns the "not registered" message and appends exactly one \<open>BadKey\<close>
  row with the poll, the value and the time of the request, leaving the rest of the
  database as it is; a list of such requests, whatever their methods, all get that
  message and append one row each, so the rows of this poll and value grow by the
  number of requests.
\<close>

theorem vote_unregistered_appends_bad_key:
  assumes "get_poll d poll_id = Some p" "state p = STARTED" "get_key d private_key poll_id = None"
  shows "vote request now poll_id private_key d =
      (Message KeyNotRegistered,
       d\<lparr>bad_keys := bad_keys d @
          [\<lparr>bad_poll = Some poll_id, bad_value = private_key, timestamp = now\<rparr>]\<rparr>)
    \<and> fst (vote_repeatedly reqs poll_id private_key d)
        = replicate (length reqs) (Message KeyNotRegistered)
    \<and> bad_keys (snd (vote_repeatedly reqs poll_id private_key d))
        = bad_keys d @ map (\<lambda>(request, now).
            \<lparr>bad_poll = Some poll_id, bad_value = private_key, timestamp = now\<rparr>) reqs
    \<and> length (bad_key_rows (snd (vote_repeatedly reqs poll_id private_key d)) poll_id private_key)
        = length (bad_key_rows d poll_id private_key) + length reqs"
proof -
  have "filter (\<lambda>b. bad_poll b = Some poll_id \<and> bad_value b = private_key)
          (map (\<lambda>(request, now). \<lparr>bad_poll = Some poll_id, bad_value = private_key, timestamp = now\<rparr>) reqs)
        = map (\<lambda>(request, now). \<lparr>bad_poll = Some poll_id, bad_value = private_key, timestamp = now\<rparr>) reqs"
    by (induction reqs) auto
  then have "length (filter (\<lambda>b. bad_poll b = Some poll_id \<and> bad_value b = private_key)
          (map (\<lambda>(request, now). \<lparr>bad_poll = Some poll_id, bad_value = private_key, timestamp = now\<rparr>) reqs))
        = length reqs" by simp
  then show ?thesis
    using vote_unregistered [OF assms] vote_repeatedly_unregistered [OF assms]
    by (simp add: bad_key_rows_def)
qed

theorem vote_unregistered_appends_bad_key_witness:
  "vote get_request 7 4 ''123456'' example_db =
      (Message KeyNotRegistered,
       example_db\<lparr>bad_keys := [\<lparr>bad_poll = Some 4, bad_value = ''123456'', timestamp = 7\<rparr>]\<rparr>)
   \<and> fst (vote_repeatedly [(get_request, 7), (post [''Y''], 8)] 4 ''123456'' example_db)
       = [Message KeyNotRegistered, Message KeyNotRegistered]
   \<and> bad_keys (snd (vote_repeatedly [(get_request, 7), (post [''Y''], 8)] 4 ''123456'' example_db))
       = [\<lparr>bad_poll = Some 4, bad_value = ''123456'', timestamp = 7\<rparr>,
          \<lparr>bad_poll = Some 4, bad_value = ''123456'', timestamp = 8\<rparr>]
   \<and> length (bad_key_rows (snd (vote_repeatedly [(get_request, 7), (post [''Y''], 8)] 4 ''123456''
        example_db)) 4 ''123456'') = 2"
proof -
  have b: "bad_keys example_db = []" "bad_key_rows example_db 4 ''123456'' = []"
    by (simp_all add: example_db_def bad_key_rows_def)
  have s: "state example_poll = STARTED" by (simp add: example_poll_def)
  show ?thesis
    using vote_unregistered_appends_bad_key [OF example_get_poll(1) s example_get_key(2),
        of get_request 7 "[(get_request, 7), (post [''Y''], 8)]"]
    by (simp add: b del: vote_repeatedly.simps)
qed

text \<open>
  C1, the claim as stated fails. A POST on a started poll that allows spoiling, with a
  registered unredeemed key, submitting the single token \<open>S\<close> (a token other than
  \<open>Y\<close> and \<open>N\<close>): the view does not answer "response not recognized" but records the
  response \<open>SPOILED\<close>.
\<close>

theorem vote_spoiled_token_counterexample:
  "get_poll example_db 4 = Some example_poll \<and> state example_poll = STARTED
   \<and> get_key example_db ''444444'' 4 = Some \<lparr>key_poll = Some 4, response = NOT_RETURNED\<rparr>
   \<and> vote (post [''S'']) 7 4 ''444444'' example_db =
       (Message VoteRecorded,
        example_db\<lparr>keys := (keys example_db)
          (''444444'' \<mapsto> \<lparr>key_poll = Some 4, response = SPOILED\<rparr>)\<rparr>)
   \<and> fst (vote (post [''S'']) 7 4 ''444444'' example_db) \<noteq> Message ResponseNotRecognized"
proof -
  have s: "state example_poll = STARTED" "allow_spoiling example_poll"
    by (simp_all add: example_poll_def)
  have p: "parse_response [''S''] = Inr SPOILED"
    by (rule parse_response_single [of _ "''S''"]) simp_all
  have "vote (post [''S'']) 7 4 ''444444'' example_db =
       (Message VoteRecorded,
        example_db\<lparr>keys := (keys example_db)
          (''444444'' \<mapsto> \<lparr>key_poll = Some 4, response = SPOILED\<rparr>)\<rparr>)"
    using vote_registered_post [OF example_get_poll(1) s(1) example_get_key(1), of "post [''S'']" 7]
    by (simp add: post_def p s)
  then show ?thesis
    using example_get_poll(1) s(1) example_get_key(1) by simp
qed

text \<open>
  C1, as amended. For a POST on a started poll with a registered key whose response
  is still \<open>NOT_RETURNED\<close>, the submitted list is read as the set of its tokens: the
  set \<open>{Y}\<close> records \<open>YES\<close> and the set \<open>{N}\<close> records \<open>NO\<close>; the sets \<open>{Y, N}\<close> and
  \<open>{S}\<close> parse to \<open>SPOILED\<close>, which is recorded when the poll allows spoiling and
  rejected without change otherwise; an empty list, a list with a token that is no
  member value of \<open>Key.Response\<close>, and a list with two or more distinct tokens other
  than \<open>{Y, N}\<close> give "response not recognized" and leave the database unchanged.
\<close>

theorem vote_parses_response_set:
  assumes "get_poll d poll_id = Some p" "state p = STARTED"
    and "get_key d private_key poll_id = Some key" "response key = NOT_RETURNED"
    and "request_method request = ''POST''"
  shows "(set (POST_response request) = {''Y''} \<longrightarrow>
            vote request now poll_id private_key d =
              (Message VoteRecorded,
               d\<lparr>keys := (keys d)(private_key \<mapsto> key\<lparr>response := YES\<rparr>)\<rparr>))
       \<and> (set (POST_response request) = {''N''} \<longrightarrow>
            vote request now poll_id private_key d =
              (Message VoteRecorded,
               d\<lparr>keys := (keys d)(private_key \<mapsto> key\<lparr>response := NO\<rparr>)\<rparr>))
       \<and> (set (POST_response request) = {''Y'', ''N''} \<or> set (POST_response request) = {''S''} \<longrightarrow>
            parse_response (POST_response request) = Inr SPOILED
            \<and> vote request now poll_id private_key d =
              (if allow_spoiling p
               then (Message VoteRecorded,
                     d\<lparr>keys := (keys d)(private_key \<mapsto> key\<lparr>response := SPOILED\<rparr>)\<rparr>)
               else (Message SpoilingNotAllowed, d)))
       \<and> (POST_response request = []
            \<or> (\<exists>t \<in> set (POST_response request). t \<notin> {''Y'', ''N'', ''S'', ''?''})
            \<or> (2 \<le> card (set (POST_response request))
                \<and> set (POST_response request) \<noteq> {''Y'', ''N''}) \<longrightarrow>
            vote request now poll_id private_key d = (Message ResponseNotRecognized, d))"
proof -
  note v = vote_registered_post [OF assms, of now]
  have yes: "set (POST_response request) = {''Y''} \<Longrightarrow>
      parse_response (POST_response request) = Inr YES"
    by (rule parse_response_single [of _ "''Y''"]) simp_all
  have no: "set (POST_response request) = {''N''} \<Longrightarrow>
      parse_response (POST_response request) = Inr NO"
    by (rule parse_response_single [of _ "''N''"]) simp_all
  have spoiled: "set (POST_response request) = {''Y'', ''N''} \<or> set (POST_response request) = {''S''}
      \<Longrightarrow> parse_response (POST_response request) = Inr SPOILED"
    using parse_response_yes_no [of "POST_response request"]
      parse_response_single [of "POST_response request" "''S''" SPOILED] by auto
  have bad: "POST_response request = []
            \<or> (\<exists>t \<in> set (POST_response request). t \<notin> {''Y'', ''N'', ''S'', ''?''})
            \<or> (2 \<le> card (set (POST_response request))
                \<and> set (POST_response request) \<noteq> {''Y'', ''N''})
      \<Longrightarrow> parse_response (POST_response request) = Inl ValueError"
    using parse_response_empty parse_response_many [of "POST_response request"]
      parse_response_invalid [of "POST_response request"] Response_of_None
    by metis
  show ?thesis
  proof (intro conjI impI)
    assume "set (POST_response request) = {''Y''}"
    from yes [OF this] show "vote request now poll_id private_key d =
              (Message VoteRecorded,
               d\<lparr>keys := (keys d)(private_key \<mapsto> key\<lparr>response := YES\<rparr>)\<rparr>)"
      by (simp add: v)
  next
    assume "set (POST_response request) = {''N''}"
    from no [OF this] show "vote request now poll_id private_key d =
              (Message VoteRecorded,
               d\<lparr>keys := (keys d)(private_key \<mapsto> key\<lparr>response := NO\<rparr>)\<rparr>)"
      by (simp add: v)
  next
    assume a: "set (POST_response request) = {''Y'', ''N''} \<or> set (POST_response request) = {''S''}"
    from spoiled [OF a] show "parse_response (POST_response request) = Inr SPOILED" .
    from spoiled [OF a] show "vote request now poll_id private_key d =
              (if allow_spoiling p
               then (Message VoteRecorded,
                     d\<lparr>keys := (keys d)(private_key \<mapsto> key\<lparr>response := SPOILED\<rparr>)\<rparr>)
               else (Message SpoilingNotAllowed, d))"
      by (simp add: v)
  next
    assume a: "POST_response request = []
            \<or> (\<exists>t \<in> set (POST_response request). t \<notin> {''Y'', ''N'', ''S'', ''?''})
            \<or> (2 \<le> card (set (POST_response request))
                \<and> set (POST_response request) \<noteq> {''Y'', ''N''})"
    from bad [OF a] show "vote request now poll_id private_key d = (Message ResponseNotRecognized, d)"
      by (simp add: v)
  qed
qed


theorem vote_parses_response_set_witness:
  "vote (post [''Y'']) 7 4 ''444444'' example_db =
     (Message VoteRecorded,
      example_db\<lparr>keys := (keys example_db)(''444444'' \<mapsto> \<lparr>key_poll = Some 4, response = YES\<rparr>)\<rparr>)
   \<and> vote (post [''N'']) 7 4 ''444444'' example_db =
     (Message VoteRecorded,
      example_db\<lparr>keys := (keys example_db)(''444444'' \<mapsto> \<lparr>key_poll = Some 4, response = NO\<rparr>)\<rparr>)
   \<and> vote (post [''N'', ''Y'']) 7 4 ''444444'' example_db =
     (Message VoteRecorded,
      example_db\<lparr>keys := (keys example_db)(''444444'' \<mapsto> \<lparr>key_poll = Some 4, response = SPOILED\<rparr>)\<rparr>)
   \<and> vote (post []) 7 4 ''444444'' example_db = (Message ResponseNotRecognized, example_db)
   \<and> vote (post [''TEST'']) 7 4 ''444444'' example_db = (Message ResponseNotRecognized, example_db)
   \<and> vote (post [''Y'', ''S'']) 7 4 ''444444'' example_db = (Message ResponseNotRecognized, example_db)"
proof -
  have s: "state example_poll = STARTED" "allow_spoiling example_poll"
    by (simp_all add: example_poll_def)
  have m: "\<And>rl. request_method (post rl) = ''POST''" "\<And>rl. POST_response (post rl) = rl"
    by (simp_all add: post_def)
  have r: "response \<lparr>key_poll = Some 4, response = NOT_RETURNED\<rparr> = NOT_RETURNED" by simp
  note t = vote_parses_response_set [OF example_get_poll(1) s(1) example_get_key(1) r m(1), of _ 7]
  have c: "2 \<le> card (set [''Y'', ''S''])" "set [''Y'', ''S''] \<noteq> {''Y'', ''N''}"
    by (auto simp: doubleton_eq_iff)
  show ?thesis
    using t [of "[''Y'']"] t [of "[''N'']"] t [of "[''N'', ''Y'']"] t [of "[]"]
      t [of "[''TEST'']"] t [of "[''Y'', ''S'']"] c
    by (simp add: m s insert_commute)
qed

section \<open>Minting a key\<close>

lemma secure_digits_6:
  obtains s where "secure_digits 6 string_digits rnd c = Inr s" "length s = 6"
  using secure_digits_ok [of string_digits 6 rnd c] by (auto simp: string_digits_def)

lemma mint_loop_Suc:
  assumes "secure_digits 6 string_digits rnd c = Inr s" "length s = 6"
  shows "mint_loop (Suc n) pid rnd c d =
    (case keys d s of
       None \<Rightarrow> (Inr s, d\<lparr>keys := (keys d)(s \<mapsto> \<lparr>key_poll = Some pid, response = NOT_RETURNED\<rparr>)\<rparr>,
                 c + 6)
     | Some k \<Rightarrow> if key_poll k = Some pid then mint_loop n pid rnd (c + 6) d
                 else (Inl IntegrityError, d, c + 6))"
  using assms by (simp add: get_or_create_def split: option.splits)

lemma mint_loop_result:
  "(case mint_loop n pid rnd c d of
      (Inl e, d', c') \<Rightarrow> d' = d
    | (Inr v, d', c') \<Rightarrow>
        keys d v = None \<and> length v = 6
        \<and> d' = d\<lparr>keys := (keys d)(v \<mapsto> \<lparr>key_poll = Some pid, response = NOT_RETURNED\<rparr>)\<rparr>)"
proof (induction n arbitrary: c)
  case 0
  show ?case by simp
next
  case (Suc n)
  obtain s where s: "secure_digits 6 string_digits rnd c = Inr s" "length s = 6"
    by (rule secure_digits_6)
  show ?case
  proof (cases "keys d s")
    case None
    with s(2) show ?thesis unfolding mint_loop_Suc [OF s] by simp
  next
    case (Some k)
    with Suc.IH [of "c + 6"] show ?thesis
      unfolding mint_loop_Suc [OF s] by simp
  qed
qed

lemma mint_loop_Inl:
  "mint_loop n pid rnd c d = (Inl e, d', c') \<Longrightarrow> d' = d"
  using mint_loop_result [where n = n and pid = pid and rnd = rnd and c = c and d = d] by simp

lemma mint_loop_Inr:
  "mint_loop n pid rnd c d = (Inr v, d', c') \<Longrightarrow>
   keys d v = None \<and> length v = 6
   \<and> d' = d\<lparr>keys := (keys d)(v \<mapsto> \<lparr>key_poll = Some pid, response = NOT_RETURNED\<rparr>)\<rparr>"
  using mint_loop_result [where n = n and pid = pid and rnd = rnd and c = c and d = d] by simp

lemma create_private_key_for_Inl:
  "create_private_key_for pid p send_email rnd c d = (Inl e, d', c') \<Longrightarrow> d' = d"
  by (auto simp: create_private_key_for_def split: if_splits prod.splits sum.splits
      dest: mint_loop_Inl)

lemma create_private_key_for_Inr:
  "create_private_key_for pid p send_email rnd c d = (Inr v, d', c') \<Longrightarrow>
   state p \<noteq> FINISHED \<and> \<not> visited send_email \<and> keys d v = None \<and> length v = 6
   \<and> d' = d\<lparr>keys := (keys d)(v \<mapsto> \<lparr>key_poll = Some pid, response = NOT_RETURNED\<rparr>),
            send_emails := save_visited send_email (send_emails d)\<rparr>"
  by (auto simp: create_private_key_for_def split: if_splits prod.splits sum.splits
      dest!: mint_loop_Inr)

lemma mint_loop_1000: "mint_loop 1000 pid rnd c d = mint_loop (Suc 999) pid rnd c d"
  by simp

lemma six_Suc: "(6::nat) = Suc (Suc (Suc (Suc (Suc (Suc 0)))))"
  by simp

lemma secure_digits_const:
  "secure_digits 6 string_digits (\<lambda>i. 5) c = Inr ''555555''"
  "secure_digits 6 string_digits (\<lambda>i. 0) c = Inr ''000000''"
  unfolding six_Suc by (simp_all add: choice_def string_digits_def)

lemma len5: "length ''555555'' = 6" "length ''000000'' = 6"
  by simp_all

text \<open>
  C2, at a failing input. Poll 4 is started and the record is unissued; the generator
  draws \<open>555555\<close>, a value that a key of poll 5 already has. The lookup of
  \<open>get_or_create\<close> is scoped to poll 4 and finds nothing, the insert violates the
  primary key, and \<open>create_private_key_for\<close> ends in \<open>IntegrityError\<close> after this one
  attempt: no retry with a fresh candidate, and not the error of an exhausted key
  space. The view \<open>email_bulletin\<close> does not catch it.
\<close>

theorem mint_collision_with_other_poll:
  "get_poll example_db 4 = Some example_poll \<and> state example_poll = STARTED
   \<and> \<not> visited (example_record 40 11 4 False LOCAL)
   \<and> keys example_db ''555555'' = Some \<lparr>key_poll = Some 5, response = NOT_RETURNED\<rparr>
   \<and> secure_digits 6 string_digits (\<lambda>i. 5) 0 = Inr ''555555''
   \<and> create_private_key_for 4 example_poll (example_record 40 11 4 False LOCAL) (\<lambda>i. 5) 0
        example_db = (Inl IntegrityError, example_db, 6)
   \<and> email_bulletin 42 (\<lambda>i. 5) 0 example_db = (ServerError IntegrityError, example_db, 6)"
proof -
  have k: "keys example_db ''555555'' = Some \<lparr>key_poll = Some 5, response = NOT_RETURNED\<rparr>"
    by (simp add: example_db_def)
  have m: "mint_loop 1000 4 (\<lambda>i. 5) 0 example_db = (Inl IntegrityError, example_db, 6)"
    unfolding mint_loop_1000 mint_loop_Suc [OF secure_digits_const(1) len5(1)]
    by (simp add: k)
  have p: "state example_poll = STARTED" "private_key_method example_poll = SIX_DIGITS"
    by (simp_all add: example_poll_def SIX_DIGITS_def)
  have c: "\<And>se. \<not> visited se \<Longrightarrow> create_private_key_for 4 example_poll se (\<lambda>i. 5) 0
        example_db = (Inl IntegrityError, example_db, 6)"
    by (simp add: create_private_key_for_def p m)
  have f: "find (\<lambda>r. public_key r = 42) (send_emails example_db)
      = Some (example_record 42 13 4 False READY)"
    by (simp add: example_db_def example_record_def)
  have e: "email_bulletin 42 (\<lambda>i. 5) 0 example_db = (ServerError IntegrityError, example_db, 6)"
    by (simp add: email_bulletin_def f example_get_poll get_bulletin_common_def c example_record_def)
  show ?thesis
    using example_get_poll(1) p(1) k secure_digits_const(1) [of 0] c e
    by (simp add: example_record_def)
qed

section \<open>Requesting a key\<close>

lemma example_find:
  "find (\<lambda>r. public_key r = 43) (send_emails example_db) = Some (example_record 43 14 4 True SUCCESS)"
  "find (\<lambda>r. public_key r = 50) (send_emails example_db) = Some (example_record 50 13 5 True SUCCESS)"
  "find (\<lambda>r. public_key r = 51) (send_emails example_db) = Some (example_record 51 14 5 False SUCCESS)"
  by (simp_all add: example_db_def example_record_def)

lemma example_record_simps [simp]:
  "poll (example_record pk v pid vis st) = pid"
  "visited (example_record pk v pid vis st) = vis"
  "public_key (example_record pk v pid vis st) = pk"
  "status (example_record pk v pid vis st) = st"
  "send_secretary (example_record pk v pid vis st) = 2"
  by (simp_all add: example_record_def)

lemma example_poll_simps [simp]:
  "state example_poll = STARTED" "allow_spoiling example_poll"
  "private_key_method example_poll = SIX_DIGITS" "secretary example_poll = 2"
  by (simp_all add: example_poll_def SIX_DIGITS_def)

lemma email_bulletin_finished:
  assumes "find (\<lambda>r. public_key r = pk) (send_emails d) = Some send_email"
    and "get_poll d (poll send_email) = Some p" "state p = FINISHED"
  shows "email_bulletin pk rnd c d = (Message (ExceptionText ValueError_PollFinished), d, c)"
  using assms by (simp add: email_bulletin_def get_bulletin_common_def create_private_key_for_def)

lemma email_bulletin_visited:
  assumes "find (\<lambda>r. public_key r = pk) (send_emails d) = Some send_email"
    and "get_poll d (poll send_email) = Some p" "state p \<noteq> FINISHED" "visited send_email"
  shows "email_bulletin pk rnd c d = (Message (ExceptionText ValueError_AlreadyIssued), d, c)"
  using assms by (simp add: email_bulletin_def get_bulletin_common_def create_private_key_for_def)

text \<open>
  C5, the claim as stated fails. The record with public key 50 is already visited and
  its poll is finished: the view answers "poll finished", not "ballot already issued",
  because the check of the poll's state comes first.
\<close>

theorem email_bulletin_finished_and_visited_counterexample:
  "find (\<lambda>r. public_key r = 50) (send_emails example_db) = Some (example_record 50 13 5 True SUCCESS)
   \<and> visited (example_record 50 13 5 True SUCCESS)
   \<and> map_option state (get_poll example_db (poll (example_record 50 13 5 True SUCCESS))) = Some FINISHED
   \<and> email_bulletin 50 (\<lambda>i. 0) 0 example_db
       = (Message (ExceptionText ValueError_PollFinished), example_db, 0)
   \<and> fst (email_bulletin 50 (\<lambda>i. 0) 0 example_db) \<noteq> Message (ExceptionText ValueError_AlreadyIssued)"
proof -
  have "email_bulletin 50 (\<lambda>i. 0) 0 example_db
       = (Message (ExceptionText ValueError_PollFinished), example_db, 0)"
    using email_bulletin_finished [OF example_find(2), of "example_poll\<lparr>state := FINISHED\<rparr>"]
    by (simp add: example_get_poll)
  then show ?thesis by (simp add: example_find example_get_poll)
qed

text \<open>
  C5, as amended. For a request by public token that resolves to an entitlement record
  and its poll: when the poll is finished the answer is the "poll finished" message,
  and when the poll is not finished and the entitlement is already visited the answer
  is the "ballot already issued" message; in both cases the database is returned as it
  was (no key row is created, the visited flag is unchanged) and the random source is
  not read.
\<close>

theorem email_bulletin_guards:
  assumes "find (\<lambda>r. public_key r = pk) (send_emails d) = Some send_email"
    and "get_poll d (poll send_email) = Some p"
  shows "(state p = FINISHED \<longrightarrow>
            email_bulletin pk rnd c d = (Message (ExceptionText ValueError_PollFinished), d, c))
       \<and> (state p \<noteq> FINISHED \<and> visited send_email \<longrightarrow>
            email_bulletin pk rnd c d = (Message (ExceptionText ValueError_AlreadyIssued), d, c))"
  using email_bulletin_finished [OF assms] email_bulletin_visited [OF assms] by blast

theorem email_bulletin_guards_witness:
  "email_bulletin 51 (\<lambda>i. 0) 0 example_db
     = (Message (ExceptionText ValueError_PollFinished), example_db, 0)
   \<and> email_bulletin 43 (\<lambda>i. 0) 0 example_db
     = (Message (ExceptionText ValueError_AlreadyIssued), example_db, 0)"
  using email_bulletin_guards [OF example_find(3), of "example_poll\<lparr>state := FINISHED\<rparr>" "\<lambda>i. 0" 0]
    email_bulletin_guards [OF example_find(1), of example_poll "\<lambda>i. 0" 0]
  by (simp add: example_get_poll)

lemma example_mint:
  "create_private_key_for 4 example_poll (example_record 40 11 4 False LOCAL) (\<lambda>i. 0) 0 example_db
     = (Inr ''000000'', example_minted_db, 6)"
proof -
  have k: "keys example_db ''000000'' = None" by (simp add: example_db_def)
  have "mint_loop 1000 4 (\<lambda>i. 0) 0 example_db =
      (Inr ''000000'',
       example_db\<lparr>keys := (keys example_db)
                   (''000000'' \<mapsto> \<lparr>key_poll = Some 4, response = NOT_RETURNED\<rparr>)\<rparr>, 6)"
    unfolding mint_loop_1000 mint_loop_Suc [OF secure_digits_const(2) len5(2)]
    by (simp add: k)
  then show ?thesis
    by (simp add: create_private_key_for_def example_minted_db_def)
qed

text \<open>
  C6. When a key with value \<open>v\<close> is minted for a started poll \<open>pid\<close>, the database
  after the mint has the poll as before and the key registered for it with response
  \<open>NOT_RETURNED\<close>; so a following redemption request with that value, of
  any method, does not take the branch of an unregistered key (no "not registered"
  message, no \<open>BadKey\<close> row), and a POST submitting \<open>Y\<close> or \<open>N\<close> records that vote.
\<close>

theorem minted_key_redeemable:
  assumes "get_poll d pid = Some p" "state p = STARTED"
    and "create_private_key_for pid p send_email rnd c d = (Inr v, d', c')"
  shows "get_poll d' pid = Some p
       \<and> get_key d' v pid = Some \<lparr>key_poll = Some pid, response = NOT_RETURNED\<rparr>
       \<and> fst (vote request now pid v d') \<noteq> Message KeyNotRegistered
       \<and> bad_keys (snd (vote request now pid v d')) = bad_keys d'
       \<and> vote (post [''Y'']) now pid v d' =
           (Message VoteRecorded,
            d'\<lparr>keys := (keys d')(v \<mapsto> \<lparr>key_poll = Some pid, response = YES\<rparr>)\<rparr>)
       \<and> vote (post [''N'']) now pid v d' =
           (Message VoteRecorded,
            d'\<lparr>keys := (keys d')(v \<mapsto> \<lparr>key_poll = Some pid, response = NO\<rparr>)\<rparr>)"
proof -
  from create_private_key_for_Inr [OF assms(3)] have
    d': "d' = d\<lparr>keys := (keys d)(v \<mapsto> \<lparr>key_poll = Some pid, response = NOT_RETURNED\<rparr>),
            send_emails := save_visited send_email (send_emails d)\<rparr>"
    by simp
  have p: "get_poll d' pid = Some p" using assms(1) by (simp add: d' get_poll_def)
  have k: "get_key d' v pid = Some \<lparr>key_poll = Some pid, response = NOT_RETURNED\<rparr>"
    by (simp add: d' get_key_def)
  have r: "response \<lparr>key_poll = Some pid, response = NOT_RETURNED\<rparr> = NOT_RETURNED" by simp
  have m: "\<And>rl. request_method (post rl) = ''POST''" by (simp add: post_def)
  have y: "parse_response (POST_response (post [''Y''])) = Inr YES"
    by (rule parse_response_single [of _ "''Y''"]) (simp_all add: post_def)
  have n: "parse_response (POST_response (post [''N''])) = Inr NO"
    by (rule parse_response_single [of _ "''N''"]) (simp_all add: post_def)
  have nr: "fst (vote request now pid v d') \<noteq> Message KeyNotRegistered
       \<and> bad_keys (snd (vote request now pid v d')) = bad_keys d'"
    using p k assms(2) by (simp add: vote_def Let_def split: sum.splits)
  show ?thesis
    using p k nr vote_registered_post [OF p assms(2) k r m [of "[''Y'']"], where now = now]
      vote_registered_post [OF p assms(2) k r m [of "[''N'']"], where now = now]
    by (simp add: y n)
qed


theorem minted_key_redeemable_witness:
  "create_private_key_for 4 example_poll (example_record 40 11 4 False LOCAL) (\<lambda>i. 0) 0 example_db
     = (Inr ''000000'', example_minted_db, 6)
   \<and> get_key example_minted_db ''000000'' 4 = Some \<lparr>key_poll = Some 4, response = NOT_RETURNED\<rparr>
   \<and> fst (vote get_request 7 4 ''000000'' example_minted_db) \<noteq> Message KeyNotRegistered
   \<and> vote (post [''Y'']) 7 4 ''000000'' example_minted_db =
       (Message VoteRecorded,
        example_minted_db\<lparr>keys := (keys example_minted_db)
          (''000000'' \<mapsto> \<lparr>key_poll = Some 4, response = YES\<rparr>)\<rparr>)"
  using minted_key_redeemable [OF example_get_poll(1) example_poll_simps(1) example_mint,
      of get_request 7]
  by (simp add: example_mint)

section \<open>Printing ballots in a batch\<close>

lemma mint_loop_exhausted:
  assumes "\<And>c. secure_digits 6 string_digits rnd c = Inr s" "length s = 6"
    and "keys d s = Some k" "key_poll k = Some pid"
  shows "mint_loop n pid rnd c d = (Inl ValueError_ExhaustedKeySpace, d, c + 6 * n)"
proof (induction n arbitrary: c)
  case 0
  show ?case by simp
next
  case (Suc n)
  show ?case
    unfolding mint_loop_Suc [OF assms(1) assms(2)]
    using assms(3,4) Suc.IH [of "c + 6"] by simp
qed

lemma fold_save_visited:
  "fold save_visited recs rows =
   map (\<lambda>row. if public_key row \<in> public_key ` set recs then row\<lparr>visited := True\<rparr> else row) rows"
proof (induction recs arbitrary: rows)
  case Nil
  show ?case by simp
next
  case (Cons s recs)
  show ?case
    unfolding fold_simps Cons.IH
    by (auto simp: save_visited_def)
qed

lemma print_loop_Inr:
  "print_loop pid p recs rnd c d = (Inr ks, d', c') \<Longrightarrow>
   length ks = length recs
   \<and> keys d' = (\<lambda>x. if x \<in> set ks then Some \<lparr>key_poll = Some pid, response = NOT_RETURNED\<rparr>
                     else keys d x)
   \<and> send_emails d' = fold save_visited recs (send_emails d)
   \<and> polls d' = polls d \<and> bad_keys d' = bad_keys d"
proof (induction recs arbitrary: c d ks)
  case Nil
  then show ?case by simp
next
  case (Cons s recs)
  from Cons.prems obtain k d1 c1 ks1 where
    m: "create_private_key_for pid p s rnd c d = (Inr k, d1, c1)"
    and l: "print_loop pid p recs rnd c1 d1 = (Inr ks1, d', c')"
    and ks: "ks = k # ks1"
    by (auto split: prod.splits sum.splits)
  from create_private_key_for_Inr [OF m] have
    d1: "d1 = d\<lparr>keys := (keys d)(k \<mapsto> \<lparr>key_poll = Some pid, response = NOT_RETURNED\<rparr>),
            send_emails := save_visited s (send_emails d)\<rparr>"
    by simp
  from Cons.IH [OF l] show ?case
    by (auto simp: ks d1)
qed

lemma print_loop_append_failure:
  assumes "print_loop pid p pre rnd c d = (Inr ks, d1, c1)"
    and "create_private_key_for pid p r rnd c1 d1 = (Inl e, d2, c2)"
  shows "print_loop pid p (pre @ r # rest) rnd c d = (Inl e, d1, c2)"
  using assms
proof (induction pre arbitrary: c d ks)
  case Nil
  then show ?case by (auto dest: create_private_key_for_Inl)
next
  case (Cons s pre)
  from Cons.prems(1) obtain k d0 c0 ks0 where
    m: "create_private_key_for pid p s rnd c d = (Inr k, d0, c0)"
    and l: "print_loop pid p pre rnd c0 d0 = (Inr ks0, d1, c1)"
    by (auto split: prod.splits sum.splits)
  from Cons.IH [OF l Cons.prems(2)] m show ?case by simp
qed

lemma example_filter:
  "filter (\<lambda>r. \<not> visited r \<and> poll r = 4 \<and> status r = LOCAL \<and> send_secretary r = 2)
     (send_emails example_db)
   = [] @ example_record 40 11 4 False LOCAL # [example_record 41 12 4 False LOCAL]"
  "filter (\<lambda>r. \<not> visited r \<and> poll r = 4 \<and> status r = LOCAL \<and> send_secretary r = 2)
     (send_emails example_db)
   = [example_record 40 11 4 False LOCAL] @ example_record 41 12 4 False LOCAL # []"
  by (simp_all add: example_db_def)

lemma example_print_loop:
  "print_loop 4 example_poll [example_record 40 11 4 False LOCAL] (\<lambda>i. 0) 0 example_db
     = (Inr [''000000''], example_minted_db, 6)"
  by (simp add: example_mint)

lemma example_exhausted:
  "create_private_key_for 4 example_poll (example_record 41 12 4 False LOCAL) (\<lambda>i. 0) 6
     example_minted_db = (Inl ValueError_ExhaustedKeySpace, example_minted_db, 6006)"
proof -
  have k: "keys example_minted_db ''000000'' = Some \<lparr>key_poll = Some 4, response = NOT_RETURNED\<rparr>"
    by (simp add: example_minted_db_def)
  have "mint_loop 1000 4 (\<lambda>i. 0) 6 example_minted_db
      = (Inl ValueError_ExhaustedKeySpace, example_minted_db, 6 + 6 * 1000)"
    by (rule mint_loop_exhausted [OF secure_digits_const(2) len5(2) k]) simp
  then show ?thesis by (simp add: create_private_key_for_def)
qed

text \<open>
  C10. In \<open>print_bulletins\<close> for a started poll of the acting secretary, let the
  selected records be \<open>pre\<close>, then \<open>r\<close>, then \<open>rest\<close>, where minting succeeds for
  all of \<open>pre\<close> (giving the keys \<open>ks\<close> and the database \<open>d1\<close>) and fails with \<open>e\<close> for
  \<open>r\<close>. Then the action returns the inline error page of \<open>e\<close> together with
  \<open>d1\<close>: the records of \<open>rest\<close> are not processed, and the failure undoes nothing of
  the earlier mints, for \<open>d1\<close> holds one new key of the poll per record of \<open>pre\<close> and
  has exactly the records of \<open>pre\<close> newly flagged as visited.
\<close>

theorem print_bulletins_failure_keeps_earlier_mints:
  assumes "get_poll d poll_id = Some p" "secretary p = user" "state p = STARTED"
    and "filter (\<lambda>r. \<not> visited r \<and> poll r = poll_id \<and> status r = LOCAL
                   \<and> send_secretary r = user) (send_emails d) = pre @ r # rest"
    and "print_loop poll_id p pre rnd c d = (Inr ks, d1, c1)"
    and "create_private_key_for poll_id p r rnd c1 d1 = (Inl e, d2, c2)"
  shows "print_bulletins user poll_id rnd c d = (PlainError e, d1, c2)
       \<and> length ks = length pre
       \<and> keys d1 = (\<lambda>x. if x \<in> set ks
                          then Some \<lparr>key_poll = Some poll_id, response = NOT_RETURNED\<rparr>
                          else keys d x)
       \<and> send_emails d1 =
           map (\<lambda>row. if public_key row \<in> public_key ` set pre then row\<lparr>visited := True\<rparr>
                       else row) (send_emails d)"
proof -
  have "print_bulletins user poll_id rnd c d = (PlainError e, d1, c2)"
    using assms(1-4) print_loop_append_failure [OF assms(5,6), of rest]
    by (simp add: print_bulletins_def)
  with print_loop_Inr [OF assms(5)] show ?thesis
    by (simp add: fold_save_visited)
qed


theorem print_bulletins_failure_keeps_earlier_mints_witness:
  "print_bulletins 2 4 (\<lambda>i. 0) 0 example_db
     = (PlainError ValueError_ExhaustedKeySpace, example_minted_db, 6006)
   \<and> keys example_minted_db ''000000'' = Some \<lparr>key_poll = Some 4, response = NOT_RETURNED\<rparr>
   \<and> map (\<lambda>row. (public_key row, visited row)) (send_emails example_minted_db)
       = [(40, True), (41, False), (42, False), (43, True), (50, True), (51, False)]"
proof -
  show ?thesis
    using print_bulletins_failure_keeps_earlier_mints [OF example_get_poll(1)
        example_poll_simps(4) example_poll_simps(1) example_filter(2) example_print_loop
        example_exhausted]
    by (simp add: example_db_def)
qed

section \<open>What the operations leave unchanged\<close>

lemma vote_polls: "polls (snd (vote request now poll_id private_key d)) = polls d"
  by (simp add: vote_def Let_def split: option.splits sum.splits)

lemma vote_keeps_voted:
  assumes "keys d v = Some k" "response k \<noteq> NOT_RETURNED"
  shows "keys (snd (vote request now poll_id private_key d)) v = Some k"
  using assms
  by (auto simp: vote_def Let_def get_key_def split: option.splits sum.splits if_splits)

lemma create_private_key_for_frame:
  assumes "create_private_key_for pid p send_email rnd c d = (r, d', c')"
  shows "polls d' = polls d" "bad_keys d' = bad_keys d"
    and "keys d v = Some k \<Longrightarrow> keys d' v = Some k"
proof -
  show "polls d' = polls d" "bad_keys d' = bad_keys d"
    using assms create_private_key_for_Inl [of pid p send_email rnd c d _ d' c']
      create_private_key_for_Inr [of pid p send_email rnd c d _ d' c']
    by (cases r; simp)+
  show "keys d v = Some k \<Longrightarrow> keys d' v = Some k"
    using assms create_private_key_for_Inl [of pid p send_email rnd c d _ d' c']
      create_private_key_for_Inr [of pid p send_email rnd c d _ d' c']
    by (cases r) auto
qed

lemma print_loop_frame:
  assumes "print_loop pid p recs rnd c d = (r, d', c')"
  shows "polls d' = polls d \<and> (keys d v = Some k \<longrightarrow> keys d' v = Some k)"
  using assms
proof (induction recs arbitrary: c d r d' c')
  case Nil
  then show ?case by simp
next
  case (Cons s recs)
  obtain r1 d1 c1 where m: "create_private_key_for pid p s rnd c d = (r1, d1, c1)"
    by (cases "create_private_key_for pid p s rnd c d") auto
  note f = create_private_key_for_frame [OF m]
  show ?case
  proof (cases r1)
    case (Inl e)
    with Cons.prems m f show ?thesis by auto
  next
    case (Inr k1)
    obtain r2 d2 c2 where l: "print_loop pid p recs rnd c1 d1 = (r2, d2, c2)"
      by (cases "print_loop pid p recs rnd c1 d1") auto
    from Cons.prems m Inr l have "d' = d2" by (auto split: sum.splits)
    with Cons.IH [OF l] f show ?thesis by auto
  qed
qed

lemma print_bulletins_frame:
  "polls (fst (snd (print_bulletins user poll_id rnd c d))) = polls d"
  "keys d v = Some k \<Longrightarrow> keys (fst (snd (print_bulletins user poll_id rnd c d))) v = Some k"
proof -
  let ?recs = "filter (\<lambda>r. \<not> visited r \<and> poll r = poll_id \<and> status r = LOCAL
                                 \<and> send_secretary r = user) (send_emails d)"
  have *: "polls (fst (snd (print_bulletins user poll_id rnd c d))) = polls d
     \<and> (keys d v = Some k \<longrightarrow> keys (fst (snd (print_bulletins user poll_id rnd c d))) v = Some k)"
  proof (cases "get_poll d poll_id")
    case None
    then show ?thesis by (simp add: print_bulletins_def)
  next
    case (Some p)
    obtain r d' c' where l: "print_loop poll_id p ?recs rnd c d = (r, d', c')"
      by (cases "print_loop poll_id p ?recs rnd c d") auto
    from print_loop_frame [OF l, of v k] Some l show ?thesis
      by (auto simp: print_bulletins_def split: sum.splits prod.splits)
  qed
  from * show "polls (fst (snd (print_bulletins user poll_id rnd c d))) = polls d" by simp
  from * show "keys d v = Some k \<Longrightarrow> keys (fst (snd (print_bulletins user poll_id rnd c d))) v = Some k"
    by simp
qed

lemma email_bulletin_frame:
  "polls (fst (snd (email_bulletin pk rnd c d))) = polls d"
  "keys d v = Some k \<Longrightarrow> keys (fst (snd (email_bulletin pk rnd c d))) v = Some k"
proof -
  have *: "polls (fst (snd (email_bulletin pk rnd c d))) = polls d
     \<and> (keys d v = Some k \<longrightarrow> keys (fst (snd (email_bulletin pk rnd c d))) v = Some k)"
  proof (cases "find (\<lambda>r. public_key r = pk) (send_emails d)")
    case None
    then show ?thesis by (simp add: email_bulletin_def)
  next
    case (Some se)
    show ?thesis
    proof (cases "get_poll d (poll se)")
      case None
      with Some show ?thesis by (simp add: email_bulletin_def)
    next
      case p: (Some p)
      obtain r d' c' where m: "create_private_key_for (poll se) p se rnd c d = (r, d', c')"
        by (cases "create_private_key_for (poll se) p se rnd c d") auto
      from create_private_key_for_frame [OF m] Some p m show ?thesis
        by (auto simp: email_bulletin_def get_bulletin_common_def split: sum.splits)
    qed
  qed
  from * show "polls (fst (snd (email_bulletin pk rnd c d))) = polls d" by simp
  from * show "keys d v = Some k \<Longrightarrow> keys (fst (snd (email_bulletin pk rnd c d))) v = Some k"
    by simp
qed

lemma start_sending_thread_frame:
  "start_sending_thread pid mail_open mail now d = Inr d' \<Longrightarrow>
   polls d' = polls d \<and> keys d' = keys d \<and> bad_keys d' = bad_keys d"
  by (auto simp: start_sending_thread_def Let_def split: if_splits)

lemma start_loop_keys:
  "keys (fst (snd (start_loop qs user mail_open mail now rnd c d))) = keys d"
proof (induction qs arbitrary: c d)
  case Nil
  show ?case by simp
next
  case (Cons a qs)
  obtain pid p where a: "a = (pid, p)" by (cases a)
  show ?case
    unfolding a
    by (auto simp: Let_def Cons.IH dest: start_sending_thread_frame split: prod.splits sum.splits)
qed


section \<open>The lifecycle of a poll\<close>

lemma start_loop_step:
  obtains (abort) e c1 where "start_loop ((pid, p) # rest) user mail_open mail now rnd c d = (Some e, d, c1)"
  | (sent) e c1 d1 where "start_loop ((pid, p) # rest) user mail_open mail now rnd c d = (Some e, d1, c1)"
      "polls d1 = AList.update pid (p\<lparr>state := STARTED\<rparr>) (polls d)" "keys d1 = keys d"
  | (cont) c1 d2 where "start_loop ((pid, p) # rest) user mail_open mail now rnd c d
        = start_loop rest user mail_open mail now rnd c1 d2"
      "polls d2 = AList.update pid (p\<lparr>state := STARTED\<rparr>) (polls d)" "keys d2 = keys d"
proof (cases "seed_all (voter_remote p) pid user READY rnd c (send_emails d)")
  case (Pair r1 c1)
  show ?thesis
  proof (cases r1)
    case (Inl e)
    with Pair show ?thesis by (intro abort [of e c1]) simp
  next
    case (Inr rows1)
    show ?thesis
    proof (cases "seed_all (voter_local p) pid user LOCAL rnd c1 rows1")
      case p2: (Pair r2 c2)
      show ?thesis
      proof (cases r2)
        case (Inl e)
        with Pair Inr p2 show ?thesis by (intro abort [of e c2]) simp
      next
        case rows2: (Inr rows2)
        let ?d1 = "d\<lparr>polls := AList.update pid (p\<lparr>state := STARTED\<rparr>) (polls d),
                           send_emails := rows2\<rparr>"
        show ?thesis
        proof (cases "start_sending_thread pid mail_open mail now ?d1")
          case (Inl e)
          with Pair Inr p2 rows2 show ?thesis
            by (intro sent [of e ?d1 c2]) (simp_all add: Let_def)
        next
          case d2: (Inr d2)
          from start_sending_thread_frame [OF d2] Pair Inr p2 rows2 d2 show ?thesis
            by (intro cont [of c2 d2]) (simp_all add: Let_def)
        qed
      qed
    qed
  qed
qed

lemma get_poll_update:
  "polls d1 = AList.update pid x (polls d) \<Longrightarrow>
   get_poll d1 i = (if i = pid then Some x else get_poll d i)"
  by (simp add: get_poll_def update_conv')

lemma start_loop_polls:
  assumes "\<forall>(j, p) \<in> set qs. \<exists>p'. get_poll d j = Some p' \<and> state p' \<noteq> FINISHED"
    and "get_poll d i = Some q"
  shows "\<exists>q'. get_poll (fst (snd (start_loop qs user mail_open mail now rnd c d))) i = Some q'
      \<and> (q' = q \<or> (state q \<noteq> FINISHED \<and> state q' = STARTED))"
  using assms
proof (induction qs arbitrary: c d q)
  case Nil
  then show ?case by simp
next
  case (Cons a qs)
  obtain pid p where a: "a = (pid, p)" by (cases a)
  from Cons.prems(1) a obtain p' where p': "get_poll d pid = Some p'" "state p' \<noteq> FINISHED"
    by auto
  have nf: "i = pid \<Longrightarrow> state q \<noteq> FINISHED" using p' Cons.prems(2) by simp
  have "\<exists>q'. get_poll (fst (snd (start_loop ((pid, p) # qs) user mail_open mail now rnd c d))) i
        = Some q' \<and> (q' = q \<or> (state q \<noteq> FINISHED \<and> state q' = STARTED))"
  proof (cases rule: start_loop_step [of pid p qs user mail_open mail now rnd c d])
    case (abort e c1)
    show ?thesis unfolding abort using Cons.prems(2) by simp
  next
    case (sent e c1 d1)
    show ?thesis unfolding sent(1) using Cons.prems(2) nf
      by (auto simp: get_poll_update [OF sent(2)])
  next
    case (cont c1 d2)
    have pre: "\<forall>(j, p) \<in> set qs. \<exists>p'. get_poll d2 j = Some p' \<and> state p' \<noteq> FINISHED"
      using Cons.prems(1) by (auto simp: get_poll_update [OF cont(2)])
    show ?thesis
    proof (cases "i = pid")
      case True
      then have g: "get_poll d2 i = Some (p\<lparr>state := STARTED\<rparr>)"
        by (simp add: get_poll_update [OF cont(2)])
      from Cons.IH [OF pre g, of c1] nf True show ?thesis
        unfolding cont(1) by auto
    next
      case False
      then have g: "get_poll d2 i = Some q"
        using Cons.prems(2) by (simp add: get_poll_update [OF cont(2)])
      from Cons.IH [OF pre g, of c1] show ?thesis
        unfolding cont(1) by auto
    qed
  qed
  then show ?case unfolding a .
qed

lemma start_loop_started:
  assumes "\<forall>(j, p) \<in> set qs. \<exists>p'. get_poll d j = Some p' \<and> state p' \<noteq> FINISHED"
    and "fst (start_loop qs user mail_open mail now rnd c d) = None"
    and "(i, p) \<in> set qs"
  shows "\<exists>q'. get_poll (fst (snd (start_loop qs user mail_open mail now rnd c d))) i = Some q'
      \<and> state q' = STARTED"
  using assms
proof (induction qs arbitrary: c d)
  case Nil
  then show ?case by simp
next
  case (Cons a qs)
  obtain pid p0 where a: "a = (pid, p0)" by (cases a)
  have none0: "fst (start_loop ((pid, p0) # qs) user mail_open mail now rnd c d) = None"
    using Cons.prems(2) unfolding a .
  have "\<exists>q'. get_poll (fst (snd (start_loop ((pid, p0) # qs) user mail_open mail now rnd c d))) i
        = Some q' \<and> state q' = STARTED"
  proof (cases rule: start_loop_step [of pid p0 qs user mail_open mail now rnd c d])
    case (abort e c1)
    with none0 show ?thesis by simp
  next
    case (sent e c1 d1)
    with none0 show ?thesis by simp
  next
    case (cont c1 d2)
    have pre: "\<forall>(j, p) \<in> set qs. \<exists>p'. get_poll d2 j = Some p' \<and> state p' \<noteq> FINISHED"
      using Cons.prems(1) by (auto simp: get_poll_update [OF cont(2)])
    have none: "fst (start_loop qs user mail_open mail now rnd c1 d2) = None"
      using none0 unfolding cont(1) .
    show ?thesis
    proof (cases "(i, p) \<in> set qs")
      case True
      from Cons.IH [OF pre none True] show ?thesis unfolding cont(1) .
    next
      case False
      with Cons.prems(3) a have ip: "i = pid" by simp
      then have g: "get_poll d2 i = Some (p0\<lparr>state := STARTED\<rparr>)"
        by (simp add: get_poll_update [OF cont(2)])
      from start_loop_polls [OF pre g, of user mail_open mail now rnd c1] show ?thesis
        unfolding cont(1) by auto
    qed
  qed
  then show ?case unfolding a .
qed

lemma set_map_filter:
  "y \<in> set (List.map_filter f xs) \<longleftrightarrow> (\<exists>x\<in>set xs. f x = Some y)"
  by (induction xs) (auto split: option.splits)

lemma queryset_member:
  "(i, p) \<in> set (queryset user sel d) \<longleftrightarrow>
   i \<in> set sel \<and> get_poll d i = Some p \<and> secretary p = user_id user"
proof -
  have "(case get_poll d j of None \<Rightarrow> None
         | Some p' \<Rightarrow> if secretary p' = user_id user then Some (j, p') else None) = Some (i, p)
        \<longleftrightarrow> j = i \<and> get_poll d i = Some p \<and> secretary p = user_id user" for j
    by (cases "get_poll d j") auto
  then show ?thesis
    unfolding queryset_def set_map_filter by auto
qed

lemma start_poll_polls:
  assumes "get_poll d i = Some q"
  shows "\<exists>q'. get_poll (fst (snd (start_poll user sel mail_open mail now rnd c d))) i = Some q'
      \<and> (q' = q \<or> (state q \<noteq> FINISHED \<and> state q' = STARTED))"
proof (cases "is_superuser user")
  case True
  with assms show ?thesis by (simp add: start_poll_def)
next
  case False
  have "\<forall>(j, p) \<in> set (filter (\<lambda>(i, p). state p \<noteq> FINISHED) (queryset user sel d)).
          \<exists>p'. get_poll d j = Some p' \<and> state p' \<noteq> FINISHED"
    by (auto simp: queryset_member)
  from start_loop_polls [OF this assms] False show ?thesis
    by (simp add: start_poll_def)
qed

lemma start_poll_started:
  assumes "get_poll d i = Some q" "\<not> is_superuser user" "i \<in> set sel"
    and "secretary q = user_id user" "state q \<noteq> FINISHED"
    and "fst (start_poll user sel mail_open mail now rnd c d) = None"
  shows "\<exists>q'. get_poll (fst (snd (start_poll user sel mail_open mail now rnd c d))) i = Some q'
      \<and> state q' = STARTED"
proof -
  let ?qs = "filter (\<lambda>(i, p). state p \<noteq> FINISHED) (queryset user sel d)"
  have pre: "\<forall>(j, p) \<in> set ?qs. \<exists>p'. get_poll d j = Some p' \<and> state p' \<noteq> FINISHED"
    by (auto simp: queryset_member)
  have m: "(i, q) \<in> set ?qs" using assms(1,3,4,5) by (simp add: queryset_member)
  have n: "fst (start_loop ?qs (user_id user) mail_open mail now rnd c d) = None"
    using assms(2,6) by (simp add: start_poll_def)
  from start_loop_started [OF pre n m] assms(2) show ?thesis
    by (simp add: start_poll_def)
qed

lemma start_poll_keys:
  "keys (fst (snd (start_poll user sel mail_open mail now rnd c d))) = keys d"
  by (simp add: start_poll_def start_loop_keys)

lemma map_of_map_if:
  "map_of (map (\<lambda>(j, p). if C j p then (j, f p) else (j, p)) xs) i
   = map_option (\<lambda>p. if C i p then f p else p) (map_of xs i)"
  by (induction xs) auto

lemma end_poll_get_poll:
  "get_poll (end_poll user sel d) i =
   map_option (\<lambda>q. if \<not> is_superuser user \<and> i \<in> set sel \<and> secretary q = user_id user
                       \<and> state q = STARTED
                    then q\<lparr>state := FINISHED\<rparr> else q) (get_poll d i)"
proof (cases "is_superuser user")
  case True
  then show ?thesis by (simp add: end_poll_def option.map_ident)
next
  case False
  then show ?thesis
    using map_of_map_if [of "\<lambda>j p. j \<in> set sel \<and> secretary p = user_id user \<and> state p = STARTED"
        "\<lambda>p. p\<lparr>state := FINISHED\<rparr>" "polls d" i]
    by (simp add: end_poll_def get_poll_def)
qed

lemma le_foldr_max: "x \<in> set xs \<Longrightarrow> x \<le> foldr max xs (0::nat)"
  by (induction xs) (auto simp: max_def)

lemma new_id_fresh: "new_id rows \<notin> fst ` set rows"
proof
  assume "new_id rows \<in> fst ` set rows"
  then have "new_id rows \<in> set (map fst rows)" by simp
  from le_foldr_max [OF this] show False by (simp add: new_id_def)
qed

lemma duplicate_loop_rows:
  "\<exists>new. duplicate_loop qs rows = rows @ new \<and> length new = length qs
     \<and> (\<forall>(j, p) \<in> set new. state p = NOT_STARTED \<and> j \<notin> fst ` set rows)"
proof (induction qs arbitrary: rows)
  case Nil
  show ?case by simp
next
  case (Cons a qs)
  obtain i p where a: "a = (i, p)" by (cases a)
  let ?row = "(new_id rows, p\<lparr>state := NOT_STARTED\<rparr>)"
  from Cons.IH [of "rows @ [?row]"] obtain new where
    new: "duplicate_loop qs (rows @ [?row]) = (rows @ [?row]) @ new" "length new = length qs"
      "\<forall>(j, p) \<in> set new. state p = NOT_STARTED \<and> j \<notin> fst ` set (rows @ [?row])"
    by blast
  have "duplicate_loop (a # qs) rows = rows @ (?row # new)"
    using new(1) by (simp add: a)
  moreover have "length (?row # new) = length (a # qs)" using new(2) by simp
  moreover have "\<forall>(j, p) \<in> set (?row # new). state p = NOT_STARTED \<and> j \<notin> fst ` set rows"
    using new(3) new_id_fresh [of rows] by auto
  ultimately show ?case by blast
qed

lemma duplicate_poll_get_poll:
  assumes "get_poll d i = Some q"
  shows "get_poll (duplicate_poll user sel d) i = Some q"
proof (cases "is_superuser user")
  case True
  with assms show ?thesis by (simp add: duplicate_poll_def)
next
  case False
  obtain new where "duplicate_loop (queryset user sel d) (polls d) = polls d @ new"
    using duplicate_loop_rows [of "queryset user sel d" "polls d"] by blast
  with assms False show ?thesis
    by (simp add: duplicate_poll_def get_poll_def map_add_Some_iff)
qed

lemma duplicate_poll_new:
  "\<exists>new. polls (duplicate_poll user sel d) = polls d @ new
     \<and> (\<forall>(j, p) \<in> set new. state p = NOT_STARTED \<and> j \<notin> fst ` set (polls d))"
proof (cases "is_superuser user")
  case True
  then show ?thesis by (simp add: duplicate_poll_def)
next
  case False
  then show ?thesis
    using duplicate_loop_rows [of "queryset user sel d" "polls d"]
    by (auto simp: duplicate_poll_def)
qed

lemma lifecycle_move_rank: "lifecycle_move s s' \<Longrightarrow> state_rank s \<le> state_rank s'"
  by (auto simp: lifecycle_move_def)

lemma step_lifecycle:
  assumes "get_poll d i = Some q"
  shows "\<exists>q'. get_poll (fst (step rnd mail e (d, c))) i = Some q'
      \<and> lifecycle_move (state q) (state q')"
proof (cases e)
  case (Vote request now poll_id private_key)
  with assms show ?thesis
    by (simp add: get_poll_def vote_polls lifecycle_move_def)
next
  case (EmailBulletin pk)
  with assms show ?thesis
    by (simp add: get_poll_def email_bulletin_frame lifecycle_move_def)
next
  case (PrintBulletins user poll_id)
  with assms show ?thesis
    by (simp add: get_poll_def print_bulletins_frame lifecycle_move_def)
next
  case (StartPoll user sel mail_open now)
  from start_poll_polls [OF assms, of user sel mail_open mail now rnd c] obtain q' where
    "get_poll (fst (snd (start_poll user sel mail_open mail now rnd c d))) i = Some q'"
    "q' = q \<or> (state q \<noteq> FINISHED \<and> state q' = STARTED)"
    by blast
  with StartPoll show ?thesis
    by (cases "state q") (auto simp: lifecycle_move_def)
next
  case (EndPoll user sel)
  with assms show ?thesis
    by (simp add: end_poll_get_poll lifecycle_move_def)
next
  case (DuplicatePoll user sel)
  with duplicate_poll_get_poll [OF assms] show ?thesis
    by (simp add: lifecycle_move_def)
qed

lemma run_lifecycle:
  assumes "get_poll d i = Some q"
  shows "\<exists>q'. get_poll (fst (run rnd mail evs (d, c))) i = Some q'
      \<and> state_rank (state q) \<le> state_rank (state q')"
  using assms
proof (induction evs arbitrary: d c q)
  case Nil
  then show ?case by (simp add: run_def)
next
  case (Cons e evs)
  from step_lifecycle [OF Cons.prems, of rnd mail e c] obtain q1 where
    q1: "get_poll (fst (step rnd mail e (d, c))) i = Some q1" "lifecycle_move (state q) (state q1)"
    by blast
  obtain d1 c1 where s: "step rnd mail e (d, c) = (d1, c1)" by (cases "step rnd mail e (d, c)")
  from q1(1) s have "get_poll d1 i = Some q1" by simp
  from Cons.IH [OF this, of c1] obtain q' where
    "get_poll (fst (run rnd mail evs (d1, c1))) i = Some q'"
    "state_rank (state q1) \<le> state_rank (state q')"
    by blast
  with lifecycle_move_rank [OF q1(2)] s show ?case
    by (auto simp: run_def)
qed

lemma example_run_states:
  "map (\<lambda>(i, p). (i, state p))
     (polls (fst (run (\<lambda>i. 100 + i) (\<lambda>n s. None) example_actions (example_db, 0))))
   = [(4, STARTED), (5, FINISHED), (6, FINISHED), (7, STARTED)]"
  by code_simp

text \<open>
  C4. For a poll that exists, with row \<open>q\<close>:
  \<^item> \<open>start_poll\<close>, whatever it is given and however it ends, leaves the row as it is or
    leaves the poll \<open>STARTED\<close>, the latter only when the poll was not \<open>FINISHED\<close>; so it
    is a no-op on a finished poll. When the action ends without exception, a selected
    unfinished poll of the acting secretary is \<open>STARTED\<close> afterwards.
  \<^item> \<open>end_poll\<close> sets \<open>FINISHED\<close> exactly on the selected polls of the acting secretary
    that are \<open>STARTED\<close> and leaves every other row as it is.
  \<^item> \<open>duplicate_poll\<close> leaves every existing row as it is; the rows it adds have new
    ids and state \<open>NOT_STARTED\<close>.
  \<^item> Every single request (the three actions and the three views) moves the state of
    the poll by at most one step along \<open>NOT_STARTED\<close>, \<open>STARTED\<close>, \<open>FINISHED\<close>, and over
    every sequence of requests the poll keeps existing and its state never moves
    backwards.
\<close>

theorem poll_state_moves_forward_only:
  assumes "get_poll d i = Some q"
  shows "(\<exists>q'. get_poll (fst (snd (start_poll user sel mail_open mail now rnd c d))) i = Some q'
            \<and> (q' = q \<or> (state q \<noteq> FINISHED \<and> state q' = STARTED)))
       \<and> (\<not> is_superuser user \<and> i \<in> set sel \<and> secretary q = user_id user
            \<and> state q \<noteq> FINISHED
            \<and> fst (start_poll user sel mail_open mail now rnd c d) = None \<longrightarrow>
          (\<exists>q'. get_poll (fst (snd (start_poll user sel mail_open mail now rnd c d))) i = Some q'
            \<and> state q' = STARTED))
       \<and> get_poll (end_poll user sel d) i =
           Some (if \<not> is_superuser user \<and> i \<in> set sel \<and> secretary q = user_id user
                    \<and> state q = STARTED
                 then q\<lparr>state := FINISHED\<rparr> else q)
       \<and> get_poll (duplicate_poll user sel d) i = Some q
       \<and> (\<exists>new. polls (duplicate_poll user sel d) = polls d @ new
             \<and> (\<forall>(j, p) \<in> set new. state p = NOT_STARTED \<and> j \<notin> fst ` set (polls d)))
       \<and> (\<exists>q'. get_poll (fst (step rnd mail e (d, c))) i = Some q'
             \<and> lifecycle_move (state q) (state q'))
       \<and> (\<exists>q'. get_poll (fst (run rnd mail evs (d, c))) i = Some q'
             \<and> state_rank (state q) \<le> state_rank (state q'))"
proof (intro conjI impI)
  show "\<exists>q'. get_poll (fst (snd (start_poll user sel mail_open mail now rnd c d))) i = Some q'
            \<and> (q' = q \<or> (state q \<noteq> FINISHED \<and> state q' = STARTED))"
    by (rule start_poll_polls [OF assms])
next
  assume "\<not> is_superuser user \<and> i \<in> set sel \<and> secretary q = user_id user
            \<and> state q \<noteq> FINISHED
            \<and> fst (start_poll user sel mail_open mail now rnd c d) = None"
  then show "\<exists>q'. get_poll (fst (snd (start_poll user sel mail_open mail now rnd c d))) i = Some q'
            \<and> state q' = STARTED"
    using start_poll_started [OF assms] by blast
next
  show "get_poll (end_poll user sel d) i =
           Some (if \<not> is_superuser user \<and> i \<in> set sel \<and> secretary q = user_id user
                    \<and> state q = STARTED
                 then q\<lparr>state := FINISHED\<rparr> else q)"
    using assms by (simp add: end_poll_get_poll)
next
  show "get_poll (duplicate_poll user sel d) i = Some q"
    by (rule duplicate_poll_get_poll [OF assms])
next
  show "\<exists>new. polls (duplicate_poll user sel d) = polls d @ new
             \<and> (\<forall>(j, p) \<in> set new. state p = NOT_STARTED \<and> j \<notin> fst ` set (polls d))"
    by (rule duplicate_poll_new)
next
  show "\<exists>q'. get_poll (fst (step rnd mail e (d, c))) i = Some q'
             \<and> lifecycle_move (state q) (state q')"
    by (rule step_lifecycle [OF assms])
next
  show "\<exists>q'. get_poll (fst (run rnd mail evs (d, c))) i = Some q'
             \<and> state_rank (state q) \<le> state_rank (state q')"
    by (rule run_lifecycle [OF assms])
qed

theorem poll_state_moves_forward_only_witness:
  "get_poll example_db 4 = Some example_poll
   \<and> get_poll (fst (snd (start_poll example_secretary [5] True (\<lambda>n s. None) 7 (\<lambda>i. 100 + i) 0
        example_db))) 5 = Some (example_poll\<lparr>state := FINISHED\<rparr>)
   \<and> get_poll (end_poll example_secretary [4, 5, 6] example_db) 4
       = Some (example_poll\<lparr>state := FINISHED\<rparr>)
   \<and> get_poll (end_poll example_secretary [4, 5, 6] example_db) 6
       = Some (example_poll\<lparr>state := NOT_STARTED\<rparr>)
   \<and> get_poll (duplicate_poll example_secretary [4] example_db) 4 = Some example_poll
   \<and> (\<exists>q'. get_poll (fst (run (\<lambda>i. 100 + i) (\<lambda>n s. None) example_actions (example_db, 0))) 6
          = Some q' \<and> state_rank NOT_STARTED \<le> state_rank (state q'))
   \<and> map (\<lambda>(i, p). (i, state p))
        (polls (fst (run (\<lambda>i. 100 + i) (\<lambda>n s. None) example_actions (example_db, 0))))
       = [(4, STARTED), (5, FINISHED), (6, FINISHED), (7, STARTED)]"
proof -
  note t4 = poll_state_moves_forward_only [OF example_get_poll(1),
      where user = example_secretary and sel = "[4, 5, 6]"]
  note t4' = poll_state_moves_forward_only [OF example_get_poll(1),
      where user = example_secretary and sel = "[4]"]
  note t5 = poll_state_moves_forward_only [OF example_get_poll(2),
      where user = example_secretary and sel = "[5]" and mail_open = True
        and mail = "\<lambda>n s. None" and now = 7 and rnd = "\<lambda>i. 100 + i" and c = 0]
  note t6 = poll_state_moves_forward_only [OF example_get_poll(3),
      where user = example_secretary and sel = "[4, 5, 6]" and rnd = "\<lambda>i. 100 + i"
        and mail = "\<lambda>n s. None" and evs = example_actions and c = 0]
  have u: "user_id example_secretary = 2" "\<not> is_superuser example_secretary"
    by (simp_all add: example_secretary_def)
  have 1: "get_poll (fst (snd (start_poll example_secretary [5] True (\<lambda>n s. None) 7 (\<lambda>i. 100 + i) 0
        example_db))) 5 = Some (example_poll\<lparr>state := FINISHED\<rparr>)"
    using t5 by auto
  have 2: "get_poll (end_poll example_secretary [4, 5, 6] example_db) 4
       = Some (example_poll\<lparr>state := FINISHED\<rparr>)"
    using t4 by (simp add: u)
  have 3: "get_poll (end_poll example_secretary [4, 5, 6] example_db) 6
       = Some (example_poll\<lparr>state := NOT_STARTED\<rparr>)"
    using t6 by (simp add: u)
  have 4: "get_poll (duplicate_poll example_secretary [4] example_db) 4 = Some example_poll"
    using t4' by simp
  have 5: "\<exists>q'. get_poll (fst (run (\<lambda>i. 100 + i) (\<lambda>n s. None) example_actions (example_db, 0))) 6
          = Some q' \<and> state_rank NOT_STARTED \<le> state_rank (state q')"
    using t6 by simp
  from example_get_poll(1) 1 2 3 4 5 example_run_states show ?thesis by blast
qed

section \<open>The stored response\<close>

lemma step_keeps_voted:
  assumes "keys d v = Some k" "response k \<noteq> NOT_RETURNED"
  shows "keys (fst (step rnd mail e (d, c))) v = Some k"
proof (cases e)
  case (Vote request now poll_id private_key)
  with vote_keeps_voted [OF assms] show ?thesis by simp
next
  case (EmailBulletin pk)
  with email_bulletin_frame(2) [OF assms(1)] show ?thesis by simp
next
  case (PrintBulletins user poll_id)
  with print_bulletins_frame(2) [OF assms(1)] show ?thesis by simp
next
  case (StartPoll user sel mail_open now)
  with assms(1) show ?thesis by (simp add: start_poll_keys)
next
  case (EndPoll user sel)
  with assms(1) show ?thesis by (simp add: end_poll_def)
next
  case (DuplicatePoll user sel)
  with assms(1) show ?thesis by (simp add: duplicate_poll_def)
qed

lemma run_keeps_voted:
  assumes "keys d v = Some k" "response k \<noteq> NOT_RETURNED"
  shows "keys (fst (run rnd mail evs (d, c))) v = Some k"
  using assms(1)
proof (induction evs arbitrary: d c)
  case Nil
  then show ?case by (simp add: run_def)
next
  case (Cons e evs)
  obtain d1 c1 where s: "step rnd mail e (d, c) = (d1, c1)" by (cases "step rnd mail e (d, c)")
  from step_keeps_voted [OF Cons.prems assms(2), of rnd mail e c] s
  have "keys d1 v = Some k" by simp
  from Cons.IH [OF this, of c1] s show ?case by (simp add: run_def)
qed

lemma vote_already_voted:
  assumes "get_poll d poll_id = Some p" "state p = STARTED"
    and "get_key d private_key poll_id = Some key" "response key \<noteq> NOT_RETURNED"
    and "parse_response (POST_response request) = Inr r" "allow_spoiling p \<or> r \<noteq> SPOILED"
  shows "vote request now poll_id private_key d = (Message AlreadyVoted, d)"
  using assms by (auto simp: vote_def Let_def)

text \<open>
  C3. A key whose stored response is not \<open>NOT_RETURNED\<close> keeps its row, and so its
  response, over every sequence of requests: the response leaves \<open>NOT_RETURNED\<close> at
  most once and is never changed afterwards. In particular, for a registered
  unredeemed key of a started poll, a POST with response \<open>Y\<close> answers "vote recorded"
  and stores \<open>YES\<close>, a second POST with response \<open>N\<close> on the same key answers "already
  voted" and changes nothing, and the stored response is \<open>YES\<close> after both.
\<close>

theorem response_written_at_most_once:
  "(keys d v = Some k \<and> response k \<noteq> NOT_RETURNED \<longrightarrow>
      keys (fst (run rnd mail evs (d, c))) v = Some k)
   \<and> (get_poll d poll_id = Some p \<and> state p = STARTED
       \<and> get_key d private_key poll_id = Some key \<and> response key = NOT_RETURNED \<longrightarrow>
      vote (post [''Y'']) now poll_id private_key d =
        (Message VoteRecorded,
         d\<lparr>keys := (keys d)(private_key \<mapsto> key\<lparr>response := YES\<rparr>)\<rparr>)
      \<and> vote (post [''N'']) now' poll_id private_key
           (d\<lparr>keys := (keys d)(private_key \<mapsto> key\<lparr>response := YES\<rparr>)\<rparr>) =
        (Message AlreadyVoted,
         d\<lparr>keys := (keys d)(private_key \<mapsto> key\<lparr>response := YES\<rparr>)\<rparr>)
      \<and> map_option response
           (keys (snd (vote (post [''N'']) now' poll_id private_key
              (snd (vote (post [''Y'']) now poll_id private_key d)))) private_key) = Some YES)"
proof (intro conjI impI)
  assume "keys d v = Some k \<and> response k \<noteq> NOT_RETURNED"
  then show "keys (fst (run rnd mail evs (d, c))) v = Some k"
    using run_keeps_voted by blast
next
  assume a: "get_poll d poll_id = Some p \<and> state p = STARTED
       \<and> get_key d private_key poll_id = Some key \<and> response key = NOT_RETURNED"
  let ?d1 = "d\<lparr>keys := (keys d)(private_key \<mapsto> key\<lparr>response := YES\<rparr>)\<rparr>"
  have m: "\<And>rl. request_method (post rl) = ''POST''" by (simp add: post_def)
  have y: "parse_response (POST_response (post [''Y''])) = Inr YES"
    by (rule parse_response_single [of _ "''Y''"]) (simp_all add: post_def)
  have n: "parse_response (POST_response (post [''N''])) = Inr NO"
    by (rule parse_response_single [of _ "''N''"]) (simp_all add: post_def)
  from a have kp: "key_poll key = Some poll_id"
    by (auto simp: get_key_def split: option.splits if_splits)
  show 1: "vote (post [''Y'']) now poll_id private_key d = (Message VoteRecorded, ?d1)"
    using a vote_registered_post [of d poll_id p private_key key "post [''Y'']" now]
    by (simp add: m y)
  have p1: "get_poll ?d1 poll_id = Some p" using a by (simp add: get_poll_def)
  have k1: "get_key ?d1 private_key poll_id = Some (key\<lparr>response := YES\<rparr>)"
    using kp by (simp add: get_key_def)
  show 2: "vote (post [''N'']) now' poll_id private_key ?d1 = (Message AlreadyVoted, ?d1)"
    using a by (intro vote_already_voted [OF p1 _ k1 _ n]) simp_all
  show "map_option response
           (keys (snd (vote (post [''N'']) now' poll_id private_key
              (snd (vote (post [''Y'']) now poll_id private_key d)))) private_key) = Some YES"
    by (simp add: 1 2)
qed

theorem response_written_at_most_once_witness:
  "vote (post [''Y'']) 7 4 ''444444'' example_db = (Message VoteRecorded, example_voted_db)
   \<and> vote (post [''N'']) 8 4 ''444444'' example_voted_db = (Message AlreadyVoted, example_voted_db)
   \<and> keys example_voted_db ''444444'' = Some \<lparr>key_poll = Some 4, response = YES\<rparr>
   \<and> keys (fst (run (\<lambda>i. 0) (\<lambda>n s. None)
         [Vote (post [''N'']) 8 4 ''444444'', Vote (post [''S'']) 9 4 ''444444'', EmailBulletin 42,
          EndPoll example_secretary [4]] (example_voted_db, 0))) ''444444''
       = Some \<lparr>key_poll = Some 4, response = YES\<rparr>"
proof -
  have k: "keys example_voted_db ''444444'' = Some \<lparr>key_poll = Some 4, response = YES\<rparr>"
    by (simp add: example_voted_db_def)
  note t1 = response_written_at_most_once [where d = example_db and poll_id = 4
      and p = example_poll and private_key = "''444444''"
      and key = "\<lparr>key_poll = Some 4, response = NOT_RETURNED\<rparr>" and now = 7 and now' = 8]
  note t2 = response_written_at_most_once [where d = example_voted_db and v = "''444444''"
      and k = "\<lparr>key_poll = Some 4, response = YES\<rparr>" and rnd = "\<lambda>i. 0" and mail = "\<lambda>n s. None"
      and evs = "[Vote (post [''N'']) 8 4 ''444444'', Vote (post [''S'']) 9 4 ''444444'',
          EmailBulletin 42, EndPoll example_secretary [4]]" and c = 0]
  from t1 have "vote (post [''Y'']) 7 4 ''444444'' example_db = (Message VoteRecorded, example_voted_db)"
    "vote (post [''N'']) 8 4 ''444444'' example_voted_db = (Message AlreadyVoted, example_voted_db)"
    by (simp_all add: example_get_poll example_get_key example_voted_db_def)
  moreover from t2 k have "keys (fst (run (\<lambda>i. 0) (\<lambda>n s. None)
         [Vote (post [''N'']) 8 4 ''444444'', Vote (post [''S'']) 9 4 ''444444'', EmailBulletin 42,
          EndPoll example_secretary [4]] (example_voted_db, 0))) ''444444''
       = Some \<lparr>key_poll = Some 4, response = YES\<rparr>"
    by simp
  ultimately show ?thesis using k by simp
qed

end
